theory Spec2Isabelle
  imports Complex_Main "HOL-Library.Sublist" "HOL-Library.AList"
begin

section \<open>Python values: exceptions, logging, strings, indexing\<close>

text \<open>
  An exception is an instance of Python's \<open>Exception\<close> (the class every \<open>except Exception\<close>
  clause of the program catches); the string is \<open>str(e)\<close>. A call that may raise returns
  \<open>Inl e\<close>. Strings are lists of code points below 256.
\<close>

datatype py_exception = PyException string

type_synonym 'a outcome = "py_exception + 'a"

fun str_exc :: "py_exception \<Rightarrow> string" where
  "str_exc (PyException m) = m"

datatype level = DEBUG | INFO | WARNING | ERROR

type_synonym log_entry = "level \<times> string"

definition nl :: char where
  "nl = CHR 0x0A"

definition digit :: "nat \<Rightarrow> char" where
  "digit n = char_of (48 + n)"

function str_nat :: "nat \<Rightarrow> string" where
  "str_nat n = (if n < 10 then [digit n] else str_nat (n div 10) @ [digit (n mod 10)])"
  by pat_completeness auto
termination
  by (relation "measure id") auto

declare str_nat.simps [simp del]

definition str_int :: "int \<Rightarrow> string" where
  "str_int k = (if k < 0 then CHR ''-'' # str_nat (nat (- k)) else str_nat (nat k))"

text \<open>\<open>xs[i]\<close>: a negative index counts from the end, an index out of range raises.\<close>

definition py_getitem :: "'a list \<Rightarrow> int \<Rightarrow> 'a outcome" where
  "py_getitem xs i =
     (if - int (length xs) \<le> i \<and> i < int (length xs)
      then Inr (xs ! nat (if i < 0 then i + int (length xs) else i))
      else Inl (PyException ''list index out of range''))"

text \<open>\<open>range(n)\<close> is empty for \<open>n \<le> 0\<close>.\<close>

definition py_range :: "int \<Rightarrow> nat list" where
  "py_range n = [0..<nat n]"

text \<open>\<open>str.isspace\<close> on the code points below 256, and \<open>str.strip()\<close>.\<close>

definition isspace :: "char \<Rightarrow> bool" where
  "isspace c = ((of_char c :: nat) \<in> {9, 10, 11, 12, 13, 28, 29, 30, 31, 32, 133, 160})"

definition strip :: "string \<Rightarrow> string" where
  "strip s = rev (dropWhile isspace (rev (dropWhile isspace s)))"

text \<open>
  \<open>s.replace(old, new)\<close>: one scan from the left; each occurrence found is replaced and the
  scan goes on behind it, so occurrences never overlap.
\<close>

function replace :: "string \<Rightarrow> string \<Rightarrow> string \<Rightarrow> string" where
  "replace old new s =
     (if old = [] then new @ concat (map (\<lambda>c. c # new) s)
      else if s = [] then []
      else if prefix old s then new @ replace old new (drop (length old) s)
      else hd s # replace old new (tl s))"
  by pat_completeness auto
termination
  by (relation "measure (\<lambda>(old, new, s). length s)") auto

declare replace.simps [simp del]

definition startswith :: "string \<Rightarrow> string \<Rightarrow> bool" where
  "startswith s p = prefix p s"

text \<open>\<open>s.split(c)\<close> for a one-character separator, and \<open>sep.join(xs)\<close>.\<close>

fun str_split :: "char \<Rightarrow> string \<Rightarrow> string list" where
  "str_split c [] = [[]]"
| "str_split c (x # xs) =
     (if x = c then [] # str_split c xs
      else (case str_split c xs of [] \<Rightarrow> [[x]] | w # ws \<Rightarrow> (x # w) # ws))"

fun join :: "string \<Rightarrow> string list \<Rightarrow> string" where
  "join sep [] = []"
| "join sep [x] = x"
| "join sep (x # y # ys) = x @ sep @ join sep (y # ys)"

text \<open>\<open>s.rsplit(c, 1)\<close>: split once, at the last occurrence of the separator.\<close>

definition rsplit :: "char \<Rightarrow> string \<Rightarrow> string list" where
  "rsplit c s =
     (if c \<in> set s
      then [rev (tl (dropWhile (\<lambda>x. x \<noteq> c) (rev s))), rev (takeWhile (\<lambda>x. x \<noteq> c) (rev s))]
      else [s])"

text \<open>\<open>str.lower()\<close> on the code points below 256: A-Z and the accented capitals.\<close>

definition lower_char :: "char \<Rightarrow> char" where
  "lower_char c =
     (let n = (of_char c :: nat)
      in if (65 \<le> n \<and> n \<le> 90) \<or> (192 \<le> n \<and> n \<le> 222 \<and> n \<noteq> 215) then char_of (n + 32) else c)"

definition lower :: "string \<Rightarrow> string" where
  "lower s = map lower_char s"

text \<open>\<open>os.path.join\<close> and \<open>os.path.split\<close> on POSIX paths.\<close>

definition path_join :: "string \<Rightarrow> string \<Rightarrow> string" where
  "path_join a b =
     (if b \<noteq> [] \<and> hd b = CHR ''/'' then b
      else if a = [] \<or> last a = CHR ''/'' then a @ b
      else a @ ''/'' @ b)"

definition path_split :: "string \<Rightarrow> string \<times> string" where
  "path_split p =
     (if CHR ''/'' \<in> set p
      then (rev (tl (dropWhile (\<lambda>x. x \<noteq> CHR ''/'') (rev p))),
            rev (takeWhile (\<lambda>x. x \<noteq> CHR ''/'') (rev p)))
      else ([], p))"

section \<open>Presentations\<close>

text \<open>
  A text frame is its list of paragraphs; a new text box has one empty paragraph. Assigning
  \<open>frame.text\<close> replaces the paragraphs by the lines of the string, reading it joins them
  with newlines. Geometry, alignment and spacing are fixed constants of the source and are
  left out.
\<close>

record para =
  p_text :: string
  p_size :: "nat option"
  p_rgb :: "(nat \<times> nat \<times> nat) option"
  p_bold :: bool
  p_italic :: bool

type_synonym text_frame = "para list"

definition new_paragraph :: para where
  "new_paragraph = \<lparr>p_text = [], p_size = None, p_rgb = None, p_bold = False, p_italic = False\<rparr>"

definition new_text_frame :: text_frame where
  "new_text_frame = [new_paragraph]"

definition set_frame_text :: "string \<Rightarrow> text_frame" where
  "set_frame_text s = map (\<lambda>t. new_paragraph\<lparr>p_text := t\<rparr>) (str_split nl s)"

definition frame_text :: "text_frame \<Rightarrow> string" where
  "frame_text ps = join [nl] (map p_text ps)"

text \<open>\<open>frame.paragraphs[0]\<close> followed by assignments to its font.\<close>

definition style_first :: "(para \<Rightarrow> para) \<Rightarrow> text_frame \<Rightarrow> text_frame" where
  "style_first f ps = (case ps of [] \<Rightarrow> [] | p # rest \<Rightarrow> f p # rest)"

record slide =
  title_frame :: text_frame
  content_frame :: text_frame
  picture :: "string option"
  label_frame :: "text_frame option"

section \<open>The world outside the program\<close>

text \<open>
  A rasterised page: its colour mode and what the imaging library does when the page is
  converted to RGB, saved as JPEG, saved as PNG and opened again (\<open>None\<close>: no exception).
\<close>

record image =
  mode :: string
  convert_res :: "py_exception option"
  jpeg_res :: "py_exception option"
  png_res :: "py_exception option"
  open_res :: "py_exception option"

text \<open>What \<open>page.extract_text()\<close> does on a page of the reader.\<close>

type_synonym page = "string outcome"

text \<open>
  The results of the calls that leave the program. \<open>get_pdf_page_count\<close> and
  \<open>clean_extracted_text\<close> are methods of the converter whose bodies are not part of the
  available source, and so is the end of the thumbnail statement of
  \<open>create_editable_text_slide\<close>: \<open>on_thumbnail_error\<close> says whether an exception raised
  there is swallowed (\<open>None\<close>) or leaves the method. Times are the numbers that the floats
  of \<open>time.time()\<close> and \<open>os.path.getmtime\<close> stand for; \<open>float_sub\<close> is the subtraction of two
  floats, whose rounding is left open.
\<close>

record env =
  mkdtemp_res :: "string outcome"
  get_pdf_page_count :: "string \<Rightarrow> int outcome"
  pdf_reader :: "string \<Rightarrow> page list outcome"
  convert_from_path :: "string \<Rightarrow> int \<Rightarrow> image list outcome"
  clean_extracted_text :: "string \<Rightarrow> string"
  on_thumbnail_error :: "py_exception \<Rightarrow> py_exception option"
  save_res :: "string \<Rightarrow> py_exception option"
  rmtree_res :: "string \<Rightarrow> py_exception option"
  remove_res :: "string \<Rightarrow> py_exception option"
  clock :: real
  uuid4 :: string
  secure_filename :: "string \<Rightarrow> string"
  float_sub :: "real \<Rightarrow> real \<Rightarrow> real"

text \<open>
  The file system and the process: the directories made by \<open>mkdtemp\<close>, the listing of each
  folder (name and entry, in \<open>os.listdir\<close> order), the log and the flashed messages.
\<close>

record entry =
  is_file :: bool
  mtime :: real
  deck :: "slide list option"

record world =
  dirs :: "string list"
  folders :: "string \<Rightarrow> (string \<times> entry) list"
  logged :: "log_entry list"
  flashes :: "(string \<times> string) list"

definition logging :: "level \<Rightarrow> string \<Rightarrow> world \<Rightarrow> world" where
  "logging lv msg w = w\<lparr>logged := logged w @ [(lv, msg)]\<rparr>"

definition flash :: "string \<Rightarrow> string \<Rightarrow> world \<Rightarrow> world" where
  "flash msg category w = w\<lparr>flashes := flashes w @ [(msg, category)]\<rparr>"

definition lookup_path :: "world \<Rightarrow> string \<Rightarrow> entry option" where
  "lookup_path w p = (case path_split p of (folder, name) \<Rightarrow> map_of (folders w folder) name)"

definition write_file :: "string \<Rightarrow> entry \<Rightarrow> world \<Rightarrow> world" where
  "write_file p e w =
     (case path_split p of (folder, name) \<Rightarrow>
        w\<lparr>folders := (folders w)(folder := AList.update name e (folders w folder))\<rparr>)"

definition remove_file :: "string \<Rightarrow> world \<Rightarrow> world" where
  "remove_file p w =
     (case path_split p of (folder, name) \<Rightarrow>
        w\<lparr>folders := (folders w)(folder := AList.delete name (folders w folder))\<rparr>)"


definition mkdtemp :: "env \<Rightarrow> string outcome" where
  "mkdtemp env = (case mkdtemp_res env of Inl e \<Rightarrow> Inl e | Inr name \<Rightarrow> Inr (''/tmp/tmp'' @ name))"

text \<open>\<open>try: ... except Exception as e: ...\<close> and \<open>try: ... finally: ...\<close> over a state.\<close>

definition try_except ::
  "'a outcome \<times> 's \<Rightarrow> (py_exception \<Rightarrow> 's \<Rightarrow> 'a outcome \<times> 's) \<Rightarrow> 'a outcome \<times> 's" where
  "try_except body handler = (case body of (Inl e, s) \<Rightarrow> handler e s | (Inr v, s) \<Rightarrow> (Inr v, s))"

definition try_finally ::
  "'a outcome \<times> 's \<Rightarrow> ('s \<Rightarrow> unit outcome \<times> 's) \<Rightarrow> 'a outcome \<times> 's" where
  "try_finally body final =
     (case body of (r, s) \<Rightarrow>
        (case final s of (Inl e, s') \<Rightarrow> (Inl e, s') | (Inr u, s') \<Rightarrow> (r, s')))"

section \<open>converter.py: the text extractor\<close>

record converter =
  temp_dir :: "string option"

definition init :: converter where
  "init = \<lparr>temp_dir = None\<rparr>"

text \<open>
  The body of the loop of \<open>extract_text_from_pdf\<close>: \<open>pdf_reader.pages[i]\<close>, \<open>extract_text()\<close>
  and the clean-up are inside the inner \<open>try\<close>, whose handler appends the empty string.
\<close>

definition extract_page :: "page list \<Rightarrow> nat \<Rightarrow> string list \<times> world \<Rightarrow> string list \<times> world" where
  "extract_page pages i acc =
     (case acc of (texts, w) \<Rightarrow>
        (case (case py_getitem pages (int i) of Inl e \<Rightarrow> Inl e | Inr page \<Rightarrow> page) of
           Inr text \<Rightarrow>
             (let text = strip (replace [nl, nl] [nl] text)
              in (texts @ [text],
                  logging DEBUG (''Extracted '' @ str_nat (length text)
                    @ '' characters from page '' @ str_nat (i + 1)) w))
         | Inl e \<Rightarrow>
             (texts @ [[]],
              logging WARNING (''Error extracting text from page '' @ str_nat (i + 1)
                @ '': '' @ str_exc e) w)))"

definition extract_text_from_pdf :: "env \<Rightarrow> string \<Rightarrow> int \<Rightarrow> world \<Rightarrow> string list \<times> world" where
  "extract_text_from_pdf env pdf_path max_pages w =
     (case pdf_reader env pdf_path of
        Inl e \<Rightarrow> ([], logging ERROR (''Error reading PDF for text extraction: '' @ str_exc e) w)
      | Inr pages \<Rightarrow>
          (let pages_to_process = min (int (length pages)) max_pages
           in foldl (\<lambda>acc i. extract_page pages i acc) ([], w) (py_range pages_to_process)))"

section \<open>converter.py: the slide composer\<close>

definition title_style :: "para \<Rightarrow> para" where
  "title_style p = p\<lparr>p_size := Some 28, p_bold := True, p_rgb := Some (44, 62, 80)\<rparr>"

definition placeholder_style :: "para \<Rightarrow> para" where
  "placeholder_style p = p\<lparr>p_size := Some 16, p_rgb := Some (127, 140, 141), p_italic := True\<rparr>"

definition body_para :: "string \<Rightarrow> para \<Rightarrow> para" where
  "body_para t p = p\<lparr>p_text := t, p_size := Some 16, p_rgb := Some (0, 0, 0)\<rparr>"

definition label_style :: "para \<Rightarrow> para" where
  "label_style p = p\<lparr>p_size := Some 8\<rparr>"

text \<open>
  The loop over \<open>enumerate(paragraphs)\<close>: a blank line is skipped; line 0 goes into the
  paragraph the frame already has, every other line into a new paragraph.
\<close>

fun add_paragraphs :: "nat \<Rightarrow> string list \<Rightarrow> text_frame \<Rightarrow> text_frame" where
  "add_paragraphs i [] frame = frame"
| "add_paragraphs i (para_text # rest) frame =
     add_paragraphs (Suc i) rest
       (if strip para_text \<noteq> []
        then (if i = 0 then style_first (body_para (strip para_text)) frame
              else frame @ [body_para (strip para_text) new_paragraph])
        else frame)"

definition create_editable_text_slide ::
  "env \<Rightarrow> string \<Rightarrow> string \<Rightarrow> nat \<Rightarrow> image \<Rightarrow> slide outcome" where
  "create_editable_text_slide env text image_path page_num img =
     (let title = style_first title_style
                    (set_frame_text (''Page '' @ str_nat page_num @ '' - Click to Edit Title''));
          content =
            (if startswith text ''[Edit this text''
             then style_first placeholder_style (set_frame_text text)
             else add_paragraphs 0 (str_split nl (clean_extracted_text env text)) new_text_frame);
          s = \<lparr>title_frame = title, content_frame = content, picture = None, label_frame = None\<rparr>
      in case open_res img of
           None \<Rightarrow>
             Inr (s\<lparr>picture := Some image_path,
                    label_frame := Some (style_first label_style (set_frame_text ''Reference''))\<rparr>)
         | Some e \<Rightarrow> (case on_thumbnail_error env e of None \<Rightarrow> Inr s | Some e' \<Rightarrow> Inl e'))"

section \<open>converter.py: the orchestrator\<close>

definition page_text_for :: "string list \<Rightarrow> nat \<Rightarrow> string outcome" where
  "page_text_for pdf_texts i =
     (if i < length pdf_texts then py_getitem pdf_texts (int i) else Inr [])"

definition placeholder_text :: "nat \<Rightarrow> string" where
  "placeholder_text page_num =
     ''[Edit this text - Content from page '' @ str_nat page_num @ '']'' @ [nl, nl]
     @ ''Click here to add your content. You can replace this placeholder text with any content you want.''"

text \<open>
  The inner \<open>try\<close> of the slide loop: the conversion to RGB of an image with an alpha channel
  or a palette, then the JPEG save. \<open>None\<close>: neither raised.
\<close>

definition jpeg_attempt :: "image \<Rightarrow> py_exception option" where
  "jpeg_attempt img =
     (if mode img \<in> {''RGBA'', ''P''}
      then (case convert_res img of Some e \<Rightarrow> Some e | None \<Rightarrow> jpeg_res img)
      else jpeg_res img)"

definition save_image :: "string \<Rightarrow> nat \<Rightarrow> image \<Rightarrow> world \<Rightarrow> string outcome \<times> world" where
  "save_image d i img w =
     (let image_path = path_join d (''page_'' @ str_nat (i + 1) @ ''.jpg'')
      in case jpeg_attempt img of
           None \<Rightarrow> (Inr image_path, w)
         | Some save_error \<Rightarrow>
             (let w = logging ERROR (''Error saving image '' @ str_nat (i + 1) @ '': ''
                        @ str_exc save_error) w;
                  image_path = path_join d (''page_'' @ str_nat (i + 1) @ ''.png'')
              in case png_res img of Some e \<Rightarrow> (Inl e, w) | None \<Rightarrow> (Inr image_path, w)))"

text \<open>One round of the loop over \<open>enumerate(images)\<close>; \<open>n\<close> is \<open>len(images)\<close>.\<close>

definition convert_page ::
  "env \<Rightarrow> string \<Rightarrow> string list \<Rightarrow> nat \<Rightarrow> nat \<Rightarrow> image \<Rightarrow> world \<Rightarrow> slide outcome \<times> world" where
  "convert_page env d pdf_texts n i img w =
     (let w = logging INFO (''Processing slide '' @ str_nat (i + 1) @ ''/'' @ str_nat n) w
      in case page_text_for pdf_texts i of
           Inl e \<Rightarrow> (Inl e, w)
         | Inr page_text \<Rightarrow>
             (case save_image d i img w of
                (Inl e, w) \<Rightarrow> (Inl e, w)
              | (Inr image_path, w) \<Rightarrow>
                  (let page_text = (if page_text = [] \<or> length (strip page_text) < 20
                                    then placeholder_text (i + 1) else page_text)
                   in (create_editable_text_slide env page_text image_path (i + 1) img, w))))"

fun convert_loop ::
  "env \<Rightarrow> string \<Rightarrow> string list \<Rightarrow> nat \<Rightarrow> nat \<Rightarrow> image list \<Rightarrow> slide list \<Rightarrow> world
     \<Rightarrow> slide list outcome \<times> world" where
  "convert_loop env d pdf_texts n i [] prs w = (Inr prs, w)"
| "convert_loop env d pdf_texts n i (img # images) prs w =
     (case convert_page env d pdf_texts n i img w of
        (Inl e, w') \<Rightarrow> (Inl e, w')
      | (Inr s, w') \<Rightarrow> convert_loop env d pdf_texts n (Suc i) images (prs @ [s]) w')"

text \<open>The \<open>try\<close> block of \<open>convert\<close>.\<close>

definition convert_try ::
  "env \<Rightarrow> string \<Rightarrow> string \<Rightarrow> int \<Rightarrow> converter \<times> world \<Rightarrow> bool outcome \<times> (converter \<times> world)" where
  "convert_try env pdf_path output_path max_pages st =
     (case st of (self, w) \<Rightarrow>
       (case mkdtemp env of
          Inl e \<Rightarrow> (Inl e, (self, w))
        | Inr d \<Rightarrow>
           (let self = self\<lparr>temp_dir := Some d\<rparr>;
                w = logging INFO (''Created temporary directory: '' @ d) (w\<lparr>dirs := d # dirs w\<rparr>)
            in case get_pdf_page_count env pdf_path of
                 Inl e \<Rightarrow> (Inl e, (self, w))
               | Inr page_count \<Rightarrow>
                  (let w = (if page_count > max_pages
                            then logging WARNING (''PDF has '' @ str_int page_count
                                   @ '' pages, limiting to '' @ str_int max_pages @ '' pages'') w
                            else w);
                       last_page = (if page_count > max_pages then max_pages else page_count);
                       (pdf_texts, w) = extract_text_from_pdf env pdf_path last_page w;
                       w = logging INFO (''Converting PDF to images: '' @ pdf_path @ '' (pages 1-''
                             @ str_int last_page @ '')'') w
                   in case convert_from_path env pdf_path last_page of
                        Inl e \<Rightarrow> (Inl e, (self, w))
                      | Inr images \<Rightarrow>
                          if images = []
                          then (Inr False, (self, logging ERROR ''No images generated from PDF'' w))
                          else
                           (let w = logging INFO (''Generated '' @ str_nat (length images)
                                      @ '' images from PDF'') w
                            in case convert_loop env d pdf_texts (length images) 0 images [] w of
                                 (Inl e, w) \<Rightarrow> (Inl e, (self, w))
                               | (Inr prs, w) \<Rightarrow>
                                  (case save_res env output_path of
                                     Some e \<Rightarrow> (Inl e, (self, w))
                                   | None \<Rightarrow>
                                      (Inr True,
                                       (self, logging INFO (''PowerPoint presentation saved: '' @ output_path)
                                          (write_file output_path
                                             \<lparr>is_file = True, mtime = clock env, deck = Some prs\<rparr> w)))))))))"

definition convert_except ::
  "py_exception \<Rightarrow> converter \<times> world \<Rightarrow> bool outcome \<times> (converter \<times> world)" where
  "convert_except e st =
     (case st of (self, w) \<Rightarrow>
        (Inr False,
         (self, logging ERROR (''Error during PDF to PowerPoint conversion: '' @ str_exc e) w)))"

definition rmtree :: "env \<Rightarrow> string \<Rightarrow> converter \<times> world \<Rightarrow> unit outcome \<times> (converter \<times> world)" where
  "rmtree env d st =
     (case st of (self, w) \<Rightarrow>
        (case rmtree_res env d of
           Some e \<Rightarrow> (Inl e, (self, w))
         | None \<Rightarrow>
             (Inr (), (self, logging INFO (''Cleaned up temporary directory: '' @ d)
                               (w\<lparr>dirs := removeAll d (dirs w)\<rparr>)))))"

definition rmtree_except ::
  "py_exception \<Rightarrow> converter \<times> world \<Rightarrow> unit outcome \<times> (converter \<times> world)" where
  "rmtree_except e st =
     (case st of (self, w) \<Rightarrow>
        (Inr (), (self, logging ERROR (''Error cleaning up temporary directory: '' @ str_exc e) w)))"

definition convert_finally :: "env \<Rightarrow> converter \<times> world \<Rightarrow> unit outcome \<times> (converter \<times> world)" where
  "convert_finally env st =
     (case temp_dir (fst st) of
        None \<Rightarrow> (Inr (), st)
      | Some d \<Rightarrow>
          if d \<noteq> [] \<and> d \<in> set (dirs (snd st))
          then try_except (rmtree env d st) rmtree_except
          else (Inr (), st))"

definition convert ::
  "env \<Rightarrow> converter \<Rightarrow> string \<Rightarrow> string \<Rightarrow> int \<Rightarrow> world \<Rightarrow> bool outcome \<times> (converter \<times> world)" where
  "convert env self pdf_path output_path max_pages w =
     try_finally
       (try_except (convert_try env pdf_path output_path max_pages (self, w)) convert_except)
       (convert_finally env)"

section \<open>app.py\<close>

definition UPLOAD_FOLDER :: string where
  "UPLOAD_FOLDER = ''uploads''"

definition OUTPUT_FOLDER :: string where
  "OUTPUT_FOLDER = ''output''"

definition ALLOWED_EXTENSIONS :: "string set" where
  "ALLOWED_EXTENSIONS = {''pdf''}"

definition allowed_file :: "string \<Rightarrow> bool outcome" where
  "allowed_file filename =
     (if CHR ''.'' \<in> set filename
      then (case py_getitem (rsplit CHR ''.'' filename) 1 of
              Inl e \<Rightarrow> Inl e
            | Inr ext \<Rightarrow> Inr (lower ext \<in> ALLOWED_EXTENSIONS))
      else Inr False)"

definition listdir :: "world \<Rightarrow> string \<Rightarrow> string list" where
  "listdir w folder = map fst (folders w folder)"

text \<open>
  The body of the inner loop of \<open>cleanup_old_files\<close>. \<open>os.path.isfile\<close> and
  \<open>os.path.getmtime\<close> read the same entry; a path that is not there is not a file.
\<close>

definition cleanup_file :: "env \<Rightarrow> real \<Rightarrow> string \<Rightarrow> string \<Rightarrow> world \<Rightarrow> world" where
  "cleanup_file env current_time folder filename w =
     (if filename = ''.gitkeep'' then w
      else
       (let file_path = path_join folder filename
        in case lookup_path w file_path of
             None \<Rightarrow> w
           | Some e \<Rightarrow>
               if is_file e
               then (if float_sub env current_time (mtime e) > 3600
                     then (case remove_res env file_path of
                             None \<Rightarrow> logging INFO (''Cleaned up old file: '' @ file_path)
                                       (remove_file file_path w)
                           | Some ex \<Rightarrow> logging ERROR (''Error cleaning up file '' @ file_path
                                          @ '': '' @ str_exc ex) w)
                     else w)
               else w))"

definition cleanup_folder :: "env \<Rightarrow> real \<Rightarrow> string \<Rightarrow> world \<Rightarrow> world" where
  "cleanup_folder env current_time folder w =
     foldl (\<lambda>w filename. cleanup_file env current_time folder filename w) w (listdir w folder)"

definition cleanup_old_files :: "env \<Rightarrow> world \<Rightarrow> world" where
  "cleanup_old_files env w =
     (let current_time = clock env
      in foldl (\<lambda>w folder. cleanup_folder env current_time folder w) w
           [UPLOAD_FOLDER, OUTPUT_FOLDER])"

datatype response = Redirect string | RenderTemplate string "(string \<times> string) list"

definition index :: "env \<Rightarrow> world \<Rightarrow> response \<times> world" where
  "index env w = (RenderTemplate ''index.html'' [], cleanup_old_files env w)"

text \<open>A request to \<open>/upload\<close>: the entry \<open>file\<close> of \<open>request.files\<close>, when there is one.\<close>

record upload =
  file_name :: string
  file_save :: "py_exception option"

record request =
  files :: "upload option"

text \<open>The inner \<open>try\<close> of \<open>upload_file\<close>, its handler and its \<open>finally\<close>.\<close>

definition upload_convert ::
  "env \<Rightarrow> string \<Rightarrow> string \<Rightarrow> string \<Rightarrow> world \<Rightarrow> response outcome \<times> world" where
  "upload_convert env unique_id original_filename filepath w =
     (case py_getitem (rsplit CHR ''.'' original_filename) 0 of
        Inl e \<Rightarrow> (Inl e, w)
      | Inr stem \<Rightarrow>
         (let output_filename = unique_id @ ''_'' @ stem @ ''.pptx'';
              output_path = path_join OUTPUT_FOLDER output_filename
          in case convert env init filepath output_path 30 w of
               (Inl e, (self, w)) \<Rightarrow> (Inl e, w)
             | (Inr success, (self, w)) \<Rightarrow>
                 if success
                 then (Inr (RenderTemplate ''index.html''
                              [(''download_file'', output_filename), (''original_name'', stem)]),
                       flash ''PDF converted successfully! Click the download button below.''
                         ''success'' w)
                 else (Inr (Redirect ''index''),
                       flash ''Error converting PDF. Please ensure the file is valid and not corrupted.''
                         ''error'' w)))"

definition upload_convert_except :: "py_exception \<Rightarrow> world \<Rightarrow> response outcome \<times> world" where
  "upload_convert_except e w =
     (Inr (Redirect ''index''),
      flash (''Error during conversion: '' @ str_exc e) ''error''
        (logging ERROR (''Conversion error: '' @ str_exc e) w))"

definition upload_finally :: "env \<Rightarrow> string \<Rightarrow> world \<Rightarrow> unit outcome \<times> world" where
  "upload_finally env filepath w =
     try_except
       (if lookup_path w filepath \<noteq> None
        then (case remove_res env filepath of
                Some e \<Rightarrow> (Inl e, w)
              | None \<Rightarrow> (Inr (), remove_file filepath w))
        else (Inr (), w))
       (\<lambda>e w. (Inr (), logging ERROR (''Error removing uploaded file: '' @ str_exc e) w))"

definition upload_except :: "py_exception \<Rightarrow> world \<Rightarrow> response outcome \<times> world" where
  "upload_except e w =
     (Inr (Redirect ''index''),
      flash ''An unexpected error occurred. Please try again.'' ''error''
        (logging ERROR (''Upload error: '' @ str_exc e) w))"

definition upload_file :: "env \<Rightarrow> request \<Rightarrow> world \<Rightarrow> response outcome \<times> world" where
  "upload_file env req w =
     try_except
       (case files req of
          None \<Rightarrow> (Inr (Redirect ''index''), flash ''No file selected'' ''error'' w)
        | Some file \<Rightarrow>
            if file_name file = []
            then (Inr (Redirect ''index''), flash ''No file selected'' ''error'' w)
            else
             (case allowed_file (file_name file) of
                Inl e \<Rightarrow> (Inl e, w)
              | Inr ok \<Rightarrow>
                  if \<not> ok
                  then (Inr (Redirect ''index''),
                        flash ''Invalid file type. Please upload a PDF file.'' ''error'' w)
                  else
                   (let unique_id = uuid4 env;
                        original_filename =
                          secure_filename env
                            (if file_name file \<noteq> [] then file_name file else ''upload.pdf'');
                        filename = unique_id @ ''_'' @ original_filename;
                        filepath = path_join UPLOAD_FOLDER filename
                    in case file_save file of
                         Some e \<Rightarrow> (Inl e, w)
                       | None \<Rightarrow>
                          (let w = logging INFO (''File uploaded: '' @ filepath)
                                     (write_file filepath
                                        \<lparr>is_file = True, mtime = clock env, deck = None\<rparr> w)
                           in try_finally
                                (try_except
                                   (upload_convert env unique_id original_filename filepath w)
                                   upload_convert_except)
                                (upload_finally env filepath)))))
       upload_except"

section \<open>Well-behaved inputs\<close>

text \<open>
  A page image the slide loop gets through: it can be stored, as JPEG or else as PNG, and the
  thumbnail statement does not raise.
\<close>

definition page_image_ok :: "env \<Rightarrow> image \<Rightarrow> bool" where
  "page_image_ok env img =
     ((jpeg_attempt img = None \<or> png_res img = None)
      \<and> (case open_res img of None \<Rightarrow> True | Some e \<Rightarrow> on_thumbnail_error env e = None))"

text \<open>
  An entry of a folder that the sweep of \<open>cleanup_old_files\<close> deletes: a regular file, not
  named \<open>.gitkeep\<close>, whose age as the float subtraction gives it is above 3600 seconds, and
  which \<open>os.remove\<close> removes without raising.
\<close>

definition swept :: "env \<Rightarrow> string \<Rightarrow> string \<times> entry \<Rightarrow> bool" where
  "swept env folder ne =
     (case ne of (filename, e) \<Rightarrow>
        filename \<noteq> ''.gitkeep'' \<and> is_file e \<and> float_sub env (clock env) (mtime e) > 3600
        \<and> remove_res env (path_join folder filename) = None)"


text \<open>The second world differs from the first by further log entries only.\<close>

definition only_logs :: "world \<Rightarrow> world \<Rightarrow> bool" where
  "only_logs w w' =
     (dirs w' = dirs w \<and> folders w' = folders w \<and> flashes w' = flashes w
      \<and> (\<exists>l. logged w' = logged w @ l))"

text \<open>
  The text of the content box of every slide of the presentation stored at a path, when there
  is one.
\<close>

definition content_texts :: "world \<Rightarrow> string \<Rightarrow> string list option" where
  "content_texts w p =
     (case lookup_path w p of
        None \<Rightarrow> None
      | Some e \<Rightarrow> (case deck e of
                    None \<Rightarrow> None
                  | Some prs \<Rightarrow> Some (map (\<lambda>s. frame_text (content_frame s)) prs)))"

section \<open>Sample inputs\<close>

text \<open>Concrete values on which the theorems below are evaluated.\<close>

definition sample_image :: image where
  "sample_image =
     \<lparr>mode = ''RGB'', convert_res = None, jpeg_res = None, png_res = None, open_res = None\<rparr>"

definition sample_world :: world where
  "sample_world = \<lparr>dirs = [], folders = (\<lambda>folder. []), logged = [], flashes = []\<rparr>"

definition sample_env ::
  "int outcome \<Rightarrow> page list outcome \<Rightarrow> image list outcome \<Rightarrow> py_exception option \<Rightarrow> env" where
  "sample_env pc pages imgs rm =
     \<lparr>mkdtemp_res = Inr ''abc'',
      get_pdf_page_count = (\<lambda>p. pc),
      pdf_reader = (\<lambda>p. pages),
      convert_from_path = (\<lambda>p n. imgs),
      clean_extracted_text = id,
      on_thumbnail_error = (\<lambda>e. None),
      save_res = (\<lambda>p. None),
      rmtree_res = (\<lambda>p. rm),
      remove_res = (\<lambda>p. None),
      clock = 10000,
      uuid4 = ''u1'',
      secure_filename = id,
      float_sub = (\<lambda>a b. a - b)\<rparr>"

definition two_page_env :: env where
  "two_page_env =
     sample_env (Inr 2)
       (Inr [Inr ''short'', Inr (''First line of the page '' @ [nl] @ '' second line'')])
       (Inr [sample_image, sample_image]) None"


section \<open>Strings\<close>

lemma py_getitem_nat:
  "py_getitem xs (int i) =
     (if i < length xs then Inr (xs ! i) else Inl (PyException ''list index out of range''))"
  by (simp add: py_getitem_def)

lemma strip_no_outer_space:
  "strip s = [] \<or> (\<not> isspace (hd (strip s)) \<and> \<not> isspace (last (strip s)))"
proof (cases "strip s = []")
  case True
  then show ?thesis by simp
next
  case False
  let ?a = "dropWhile isspace s"
  let ?b = "dropWhile isspace (rev ?a)"
  have b: "?b \<noteq> []" using False by (simp add: strip_def)
  then have hb: "\<not> isspace (hd ?b)" by (rule hd_dropWhile)
  have "last (strip s) = hd ?b" using b by (simp add: strip_def last_rev)
  with hb have l: "\<not> isspace (last (strip s))" by simp
  have a: "?a \<noteq> []"
  proof
    assume "?a = []"
    then have "?b = []" by (simp only: rev.simps(1) dropWhile.simps(1))
    with b show False by (simp only: not_True_eq_False)
  qed
  then have ha: "\<not> isspace (hd ?a)" by (rule hd_dropWhile)
  have "\<exists>ys. rev ?a = ys @ ?b"
    by (metis takeWhile_dropWhile_id)
  then obtain ys where "rev ?a = ys @ ?b" ..
  then have "?a = rev ?b @ rev ys" by (metis rev_append rev_rev_ident)
  then have "hd ?a = hd (rev ?b)" using b by (metis hd_append2 rev_is_Nil_conv)
  with ha have "\<not> isspace (hd (strip s))" by (simp add: strip_def)
  with l show ?thesis by simp
qed

lemma sublist_strip: "sublist (strip s) s"
proof -
  have "suffix (dropWhile isspace s) s" by (rule suffix_dropWhile)
  moreover have "suffix (dropWhile isspace (rev (dropWhile isspace s))) (rev (dropWhile isspace s))"
    by (rule suffix_dropWhile)
  then have "prefix (strip s) (dropWhile isspace s)"
    by (simp add: strip_def suffix_to_prefix)
  ultimately show ?thesis
    by (meson prefix_imp_sublist sublist_order.order_trans suffix_imp_sublist)
qed

text \<open>One pass of \<open>replace\<close> over newline pairs, one equation for each branch.\<close>

lemma replace_nlnl_Nil: "replace [nl, nl] [nl] [] = []"
  by (simp add: replace.simps)

lemma replace_nlnl_hit:
  "replace [nl, nl] [nl] (nl # nl # t) = nl # replace [nl, nl] [nl] t"
  by (subst replace.simps) simp

lemma replace_nlnl_miss:
  "\<not> prefix [nl, nl] (c # t) \<Longrightarrow> replace [nl, nl] [nl] (c # t) = c # replace [nl, nl] [nl] t"
  by (subst replace.simps) auto

lemma replace_nlnl_head:
  assumes p: "prefix [nl] (replace [nl, nl] [nl] t)"
  shows "prefix [nl] t"
proof (cases t)
  case Nil
  with p show ?thesis by (simp add: replace_nlnl_Nil)
next
  case (Cons c u)
  show ?thesis
  proof (cases "prefix [nl, nl] (c # u)")
    case True
    then show ?thesis using Cons by simp
  next
    case False
    with p Cons show ?thesis by (simp add: replace_nlnl_miss)
  qed
qed

text \<open>Where no three newlines follow each other, one pass leaves no pair of newlines.\<close>

lemma replace_nlnl_no_double:
  "\<not> sublist [nl, nl, nl] s \<Longrightarrow> \<not> sublist [nl, nl] (replace [nl, nl] [nl] s)"
proof (induction s rule: length_induct)
  case (1 s)
  show ?case
  proof (cases s)
    case Nil
    then show ?thesis by (simp add: replace_nlnl_Nil)
  next
    case (Cons c t)
    show ?thesis
    proof (cases "prefix [nl, nl] (c # t)")
      case True
      then obtain u where u: "s = nl # nl # u" using Cons by (cases t) auto
      have nou: "\<not> sublist [nl, nl, nl] u"
        using "1.prems" u by (simp add: sublist_Cons_right)
      have nohd: "\<not> prefix [nl] u"
        using "1.prems" u by (auto simp: sublist_Cons_right prefix_Cons)
      have "\<not> sublist [nl, nl] (replace [nl, nl] [nl] u)"
        using "1.IH" u nou by simp
      moreover have "\<not> prefix [nl] (replace [nl, nl] [nl] u)"
        using nohd replace_nlnl_head by blast
      ultimately show ?thesis
        by (simp add: u replace_nlnl_hit sublist_Cons_right)
    next
      case False
      have not: "\<not> sublist [nl, nl, nl] t"
        using "1.prems" Cons by (simp add: sublist_Cons_right)
      have ih: "\<not> sublist [nl, nl] (replace [nl, nl] [nl] t)"
        using "1.IH" Cons not by simp
      have "\<not> prefix [nl, nl] (c # replace [nl, nl] [nl] t)"
      proof
        assume "prefix [nl, nl] (c # replace [nl, nl] [nl] t)"
        then have "c = nl" "prefix [nl] (replace [nl, nl] [nl] t)" by simp_all
        then have "c = nl" "prefix [nl] t" using replace_nlnl_head by blast+
        then have "prefix [nl, nl] (c # t)" by simp
        with False show False by simp
      qed
      with ih show ?thesis
        by (simp add: Cons replace_nlnl_miss [OF False] sublist_Cons_right)
    qed
  qed
qed

lemma stored_no_double:
  "\<not> sublist [nl, nl, nl] raw \<Longrightarrow> \<not> sublist [nl, nl] (strip (replace [nl, nl] [nl] raw))"
  using replace_nlnl_no_double sublist_strip sublist_order.order_trans by blast

section \<open>The text extractor\<close>

lemma fst_extract_page:
  "fst (extract_page pages i (texts, w)) =
     texts @ [case py_getitem pages (int i) of
                Inl e \<Rightarrow> []
              | Inr (Inl e) \<Rightarrow> []
              | Inr (Inr raw) \<Rightarrow> strip (replace [nl, nl] [nl] raw)]"
  by (simp add: extract_page_def Let_def split: sum.splits)

lemma fst_extract_fold:
  "fst (foldl (\<lambda>acc i. extract_page pages i acc) (texts, w) is) =
     texts @ map (\<lambda>i. case py_getitem pages (int i) of
                Inl e \<Rightarrow> []
              | Inr (Inl e) \<Rightarrow> []
              | Inr (Inr raw) \<Rightarrow> strip (replace [nl, nl] [nl] raw)) is"
proof (induction "is" arbitrary: texts w)
  case Nil
  then show ?case by simp
next
  case (Cons i "is")
  obtain texts' w' where step: "extract_page pages i (texts, w) = (texts', w')"
    by (cases "extract_page pages i (texts, w)")
  have "fst (extract_page pages i (texts, w)) = texts'"
    by (simp add: step)
  then have "texts' = texts @ [case py_getitem pages (int i) of
                Inl e \<Rightarrow> []
              | Inr (Inl e) \<Rightarrow> []
              | Inr (Inr raw) \<Rightarrow> strip (replace [nl, nl] [nl] raw)]"
    by (simp only: fst_extract_page)
  then show ?case
    by (simp add: step Cons.IH)
qed

lemma extract_texts:
  assumes "pdf_reader env pdf_path = Inr pages"
  shows "fst (extract_text_from_pdf env pdf_path max_pages w) =
     map (\<lambda>i. case pages ! i of Inl e \<Rightarrow> [] | Inr raw \<Rightarrow> strip (replace [nl, nl] [nl] raw))
       [0..<nat (min (int (length pages)) max_pages)]"
proof -
  have "\<And>i. i \<in> set [0..<nat (min (int (length pages)) max_pages)] \<Longrightarrow> i < length pages"
    by auto
  then show ?thesis
    using assms
    by (simp add: extract_text_from_pdf_def Let_def fst_extract_fold py_range_def py_getitem_nat
        cong: map_cong)
qed

text \<open>
  Claim C3. When the reader opens the file with its pages, \<open>extract_text_from_pdf\<close> returns
  one string for each processed page, in page order, and the number of processed pages is the
  smaller of the page count and \<open>max_pages\<close> (none when \<open>max_pages\<close> is negative). A page whose
  extraction raises does not stop the loop: its entry is the empty string, and the entry of
  every other page is its cleaned text.
\<close>

theorem extract_text_tolerates_page_failures:
  assumes "pdf_reader env pdf_path = Inr pages"
  shows "int (length (fst (extract_text_from_pdf env pdf_path max_pages w)))
           = max 0 (min (int (length pages)) max_pages)
       \<and> (\<forall>i < length (fst (extract_text_from_pdf env pdf_path max_pages w)).
            fst (extract_text_from_pdf env pdf_path max_pages w) ! i =
              (case pages ! i of Inl e \<Rightarrow> [] | Inr raw \<Rightarrow> strip (replace [nl, nl] [nl] raw)))"
  by (simp add: extract_texts [OF assms])

theorem extract_text_tolerates_page_failures_witness:
  "pdf_reader (sample_env (Inr 3) (Inr [Inr ''  a '', Inl (PyException ''boom''), Inr ''c'']) (Inr []) None)
      ''in.pdf'' = Inr [Inr ''  a '', Inl (PyException ''boom''), Inr ''c'']
   \<and> length (fst (extract_text_from_pdf
        (sample_env (Inr 3) (Inr [Inr ''  a '', Inl (PyException ''boom''), Inr ''c'']) (Inr []) None)
        ''in.pdf'' 2 sample_world)) = 2
   \<and> fst (extract_text_from_pdf
        (sample_env (Inr 3) (Inr [Inr ''  a '', Inl (PyException ''boom''), Inr ''c'']) (Inr []) None)
        ''in.pdf'' 2 sample_world) ! 1 = []"
proof -
  let ?env = "sample_env (Inr 3) (Inr [Inr ''  a '', Inl (PyException ''boom''), Inr ''c'']) (Inr []) None"
  have h: "pdf_reader ?env ''in.pdf'' = Inr [Inr ''  a '', Inl (PyException ''boom''), Inr ''c'']"
    by (simp add: sample_env_def)
  from extract_text_tolerates_page_failures [OF h, of 2 sample_world] h show ?thesis
    by simp
qed

text \<open>
  Claim C4, as amended. For every page whose extraction succeeds, the stored string is the raw
  text after one left-to-right pass that replaces each pair of newlines found by one newline,
  trimmed of leading and trailing whitespace. The stored string neither begins nor ends with
  whitespace, and it contains no pair of newlines when the raw text has no three newlines in a
  row. Three newlines in a row can leave a pair: the raw text \<open>a\<close>, three newlines, \<open>b\<close> is
  stored as \<open>a\<close>, two newlines, \<open>b\<close>.
\<close>

theorem stored_text_one_pass_collapsed_and_trimmed:
  assumes "pdf_reader env pdf_path = Inr pages"
    and "i < length pages" and "int i < max_pages" and "pages ! i = Inr raw"
  shows "fst (extract_text_from_pdf env pdf_path max_pages w) ! i = strip (replace [nl, nl] [nl] raw)
       \<and> (fst (extract_text_from_pdf env pdf_path max_pages w) ! i = []
          \<or> (\<not> isspace (hd (fst (extract_text_from_pdf env pdf_path max_pages w) ! i))
             \<and> \<not> isspace (last (fst (extract_text_from_pdf env pdf_path max_pages w) ! i))))
       \<and> (\<not> sublist [nl, nl, nl] raw
            \<longrightarrow> \<not> sublist [nl, nl] (fst (extract_text_from_pdf env pdf_path max_pages w) ! i))
       \<and> strip (replace [nl, nl] [nl] (''a'' @ [nl, nl, nl] @ ''b'')) = ''a'' @ [nl, nl] @ ''b''"
proof -
  have "i < nat (min (int (length pages)) max_pages)"
    using assms(2,3) by simp
  then have eq: "fst (extract_text_from_pdf env pdf_path max_pages w) ! i
                   = strip (replace [nl, nl] [nl] raw)"
    using assms(4) by (simp add: extract_texts [OF assms(1)])
  have ex: "strip (replace [nl, nl] [nl] (''a'' @ [nl, nl, nl] @ ''b'')) = ''a'' @ [nl, nl] @ ''b''"
    by (simp add: replace.simps strip_def isspace_def nl_def)
  show ?thesis
    unfolding eq using strip_no_outer_space stored_no_double ex by blast
qed

theorem stored_text_one_pass_collapsed_and_trimmed_witness:
  "pdf_reader (sample_env (Inr 1) (Inr [Inr ('' a'' @ [nl, nl] @ ''b '')]) (Inr []) None) ''in.pdf''
     = Inr [Inr ('' a'' @ [nl, nl] @ ''b '')]
   \<and> (0::nat) < length [Inr ('' a'' @ [nl, nl] @ ''b '') :: page] \<and> int 0 < 1
   \<and> [Inr ('' a'' @ [nl, nl] @ ''b '') :: page] ! 0 = Inr ('' a'' @ [nl, nl] @ ''b '')
   \<and> fst (extract_text_from_pdf
        (sample_env (Inr 1) (Inr [Inr ('' a'' @ [nl, nl] @ ''b '')]) (Inr []) None)
        ''in.pdf'' 1 sample_world) ! 0 = ''a'' @ [nl] @ ''b''"
proof -
  let ?env = "sample_env (Inr 1) (Inr [Inr ('' a'' @ [nl, nl] @ ''b '')]) (Inr []) None"
  have h: "pdf_reader ?env ''in.pdf'' = Inr [Inr ('' a'' @ [nl, nl] @ ''b '')]"
    by (simp add: sample_env_def)
  have r: "strip (replace [nl, nl] [nl] ('' a'' @ [nl, nl] @ ''b '')) = ''a'' @ [nl] @ ''b''"
    by (simp add: replace.simps strip_def isspace_def nl_def)
  from stored_text_one_pass_collapsed_and_trimmed
         [OF h, of 0 1 "'' a'' @ [nl, nl] @ ''b ''" sample_world] h r
  show ?thesis by simp
qed

theorem double_newline_survives_counterexample:
  "fst (extract_text_from_pdf
        (sample_env (Inr 1) (Inr [Inr (''a'' @ [nl, nl, nl] @ ''b'')]) (Inr []) None)
        ''in.pdf'' 1 sample_world) ! 0 = ''a'' @ [nl, nl] @ ''b''
   \<and> sublist [nl, nl]
     (fst (extract_text_from_pdf
        (sample_env (Inr 1) (Inr [Inr (''a'' @ [nl, nl, nl] @ ''b'')]) (Inr []) None)
        ''in.pdf'' 1 sample_world) ! 0)"
  by (simp add: extract_text_from_pdf_def sample_env_def py_range_def extract_page_def py_getitem_def
      replace.simps strip_def isspace_def nl_def sublist_code)

section \<open>The slide composer\<close>

lemma str_split_not_Nil: "str_split c s \<noteq> []"
  by (induction s) (auto split: list.splits)

lemma join_Cons: "ys \<noteq> [] \<Longrightarrow> join sep (x # ys) = x @ sep @ join sep ys"
  by (cases ys) simp_all

lemma join_str_split: "join [c] (str_split c s) = s"
proof (induction s)
  case Nil
  then show ?case by simp
next
  case (Cons x xs)
  show ?case
  proof (cases "x = c")
    case True
    then show ?thesis using Cons by (simp add: join_Cons str_split_not_Nil)
  next
    case False
    obtain w ws where sp: "str_split c xs = w # ws"
      using str_split_not_Nil by (cases "str_split c xs") auto
    with Cons have "join [c] (w # ws) = xs" by simp
    then have "join [c] ((x # w) # ws) = x # xs" by (cases ws) simp_all
    with False sp show ?thesis by simp
  qed
qed

lemma p_text_style_first:
  "(\<And>p. p_text (f p) = p_text p) \<Longrightarrow> map p_text (style_first f ps) = map p_text ps"
  by (cases ps) (simp_all add: style_first_def)

lemma texts_set_frame_text: "map p_text (set_frame_text s) = str_split nl s"
  by (simp add: set_frame_text_def comp_def)

lemma frame_text_placeholder:
  "frame_text (style_first placeholder_style (set_frame_text s)) = s"
  by (simp add: frame_text_def p_text_style_first placeholder_style_def texts_set_frame_text
      join_str_split)

lemma texts_add_paragraphs_Suc:
  "map p_text (add_paragraphs (Suc i) ls frame)
     = map p_text frame @ filter (\<lambda>l. l \<noteq> []) (map strip ls)"
  by (induction ls arbitrary: i frame) (simp_all add: body_para_def)

lemma texts_add_paragraphs_0:
  "map p_text (add_paragraphs 0 (l # ls) new_text_frame)
     = strip l # filter (\<lambda>l. l \<noteq> []) (map strip ls)"
  apply (subst add_paragraphs.simps)
  apply (subst texts_add_paragraphs_Suc)
  apply (simp add: new_text_frame_def style_first_def body_para_def new_paragraph_def)
  done

lemma texts_add_paragraphs_split:
  "map p_text (add_paragraphs 0 (str_split c s) new_text_frame)
     = strip (hd (str_split c s)) # filter (\<lambda>l. l \<noteq> []) (map strip (tl (str_split c s)))"
proof -
  obtain l ls where sp: "str_split c s = l # ls"
    using str_split_not_Nil by (cases "str_split c s") auto
  show ?thesis by (simp only: sp texts_add_paragraphs_0 list.sel)
qed

text \<open>The content frame of the slide that \<open>create_editable_text_slide\<close> returns.\<close>

lemma create_slide_content:
  "create_editable_text_slide env text image_path page_num img = Inr s \<Longrightarrow>
   content_frame s =
     (if startswith text ''[Edit this text''
      then style_first placeholder_style (set_frame_text text)
      else add_paragraphs 0 (str_split nl (clean_extracted_text env text)) new_text_frame)"
  by (auto simp: create_editable_text_slide_def Let_def split: option.splits)

lemma startswith_placeholder: "startswith (placeholder_text n) ''[Edit this text''"
  by (simp add: startswith_def placeholder_text_def)

lemma prefix_placeholder:
  "prefix (''[Edit this text - Content from page '' @ str_nat n @ '']'') (placeholder_text n)"
  by (simp add: placeholder_text_def)

section \<open>The orchestrator\<close>

text \<open>
  Claim C10. The text of page \<open>i\<close> in the slide loop is read from the list of extracted texts
  only when \<open>i\<close> is below its length and is the empty string otherwise: the lookup never
  raises, also when there are fewer texts than images.
\<close>

theorem page_text_lookup_total:
  "page_text_for pdf_texts i = Inr (if i < length pdf_texts then pdf_texts ! i else [])"
  by (simp add: page_text_for_def py_getitem_nat)

theorem page_text_lookup_total_witness:
  "page_text_for [''only page''] 0 = Inr ''only page'' \<and> page_text_for [''only page''] 3 = Inr []"
  using page_text_lookup_total [of "[''only page'']" 0] page_text_lookup_total [of "[''only page'']" 3]
  by simp

lemma only_logs_refl: "only_logs w w"
  by (simp add: only_logs_def)

lemma only_logs_trans: "only_logs w1 w2 \<Longrightarrow> only_logs w2 w3 \<Longrightarrow> only_logs w1 w3"
  by (auto simp: only_logs_def)

lemma only_logs_logging: "only_logs w (logging lv msg w)"
  by (simp add: only_logs_def logging_def)

lemma only_logs_logging': "only_logs w w' \<Longrightarrow> only_logs w (logging lv msg w')"
  by (auto simp: only_logs_def logging_def)

lemma only_logs_set: "only_logs w w' \<Longrightarrow> set (logged w) \<subseteq> set (logged w')"
  by (auto simp: only_logs_def)

lemma extract_page_only_logs: "only_logs w (snd (extract_page pages i (texts, w)))"
  by (simp add: extract_page_def Let_def only_logs_logging split: sum.splits)

lemma extract_fold_only_logs:
  "only_logs w (snd (foldl (\<lambda>acc i. extract_page pages i acc) (texts, w) is))"
proof (induction "is" arbitrary: texts w)
  case Nil
  then show ?case by (simp add: only_logs_refl)
next
  case (Cons i "is")
  obtain texts' w' where step: "extract_page pages i (texts, w) = (texts', w')"
    by (cases "extract_page pages i (texts, w)")
  have "only_logs w w'"
    using extract_page_only_logs [of w pages i texts] by (simp add: step)
  moreover have "only_logs w' (snd (foldl (\<lambda>acc i. extract_page pages i acc) (texts', w') is))"
    by (rule Cons.IH)
  ultimately show ?case
    by (simp add: step) (rule only_logs_trans)
qed

lemma extract_text_only_logs:
  "extract_text_from_pdf env pdf_path max_pages w = (texts, w') \<Longrightarrow> only_logs w w'"
proof -
  assume a: "extract_text_from_pdf env pdf_path max_pages w = (texts, w')"
  have "only_logs w (snd (extract_text_from_pdf env pdf_path max_pages w))"
    by (simp add: extract_text_from_pdf_def Let_def only_logs_logging extract_fold_only_logs
        split: sum.splits)
  with a show ?thesis by simp
qed

lemma save_image_only_logs: "save_image d i img w = (r, w') \<Longrightarrow> only_logs w w'"
  by (auto simp: save_image_def Let_def only_logs_refl only_logs_logging split: option.splits)

lemma convert_page_only_logs:
  "convert_page env d pdf_texts n i img w = (r, w') \<Longrightarrow> only_logs w w'"
  by (auto simp: convert_page_def Let_def only_logs_logging split: sum.splits prod.splits
      dest!: save_image_only_logs intro: only_logs_trans [OF only_logs_logging])

lemma convert_loop_only_logs:
  "convert_loop env d pdf_texts n i images prs w = (r, w') \<Longrightarrow> only_logs w w'"
proof (induction images arbitrary: i prs w)
  case Nil
  then show ?case by (simp add: only_logs_refl)
next
  case (Cons img images)
  obtain r1 w1 where step: "convert_page env d pdf_texts n i img w = (r1, w1)"
    by (cases "convert_page env d pdf_texts n i img w")
  then have l1: "only_logs w w1" by (rule convert_page_only_logs)
  show ?case
  proof (cases r1)
    case (Inl e)
    with Cons.prems step l1 show ?thesis by simp
  next
    case (Inr s)
    with Cons.prems step have "convert_loop env d pdf_texts n (Suc i) images (prs @ [s]) w1 = (r, w')"
      by simp
    then have "only_logs w1 w'" by (rule Cons.IH)
    with l1 show ?thesis by (rule only_logs_trans)
  qed
qed

text \<open>The slides the loop builds, one for each image, in order.\<close>

lemma convert_page_fst:
  "fst (convert_page env d pdf_texts n i img w) = fst (convert_page env d pdf_texts n i img w0)"
  by (simp add: convert_page_def save_image_def Let_def split: sum.splits option.splits prod.splits)

lemma convert_loop_slides:
  "convert_loop env d pdf_texts n i images prs w = (Inr prs', w') \<Longrightarrow>
   length prs' = length prs + length images \<and>
   (\<forall>k < length prs. prs' ! k = prs ! k) \<and>
   (\<forall>k < length images.
      fst (convert_page env d pdf_texts n (i + k) (images ! k) w0) = Inr (prs' ! (length prs + k)))"
proof (induction images arbitrary: i prs w)
  case Nil
  then show ?case by simp
next
  case (Cons img images)
  obtain r1 w1 where step: "convert_page env d pdf_texts n i img w = (r1, w1)"
    by (cases "convert_page env d pdf_texts n i img w")
  show ?case
  proof (cases r1)
    case (Inl e)
    with Cons.prems step show ?thesis by simp
  next
    case (Inr s)
    with Cons.prems step have rest: "convert_loop env d pdf_texts n (Suc i) images (prs @ [s]) w1 = (Inr prs', w')"
      by simp
    note ih = Cons.IH [OF rest]
    from ih have len: "length prs' = length prs + length (img # images)" by simp
    from ih have pre: "\<forall>k < length (prs @ [s]). prs' ! k = (prs @ [s]) ! k" by simp
    then have pre1: "\<forall>k < length prs. prs' ! k = prs ! k"
      by (auto simp: nth_append)
    from pre have here: "prs' ! length prs = s" by (auto simp: nth_append)
    have first: "fst (convert_page env d pdf_texts n i img w0) = Inr s"
      using step Inr convert_page_fst [of env d pdf_texts n i img w0 w] by simp
    have "\<forall>k < length (img # images).
      fst (convert_page env d pdf_texts n (i + k) ((img # images) ! k) w0) = Inr (prs' ! (length prs + k))"
    proof (intro allI impI)
      fix k assume k: "k < length (img # images)"
      show "fst (convert_page env d pdf_texts n (i + k) ((img # images) ! k) w0) = Inr (prs' ! (length prs + k))"
      proof (cases k)
        case 0
        with first here show ?thesis by simp
      next
        case (Suc j)
        with k have "j < length images" by simp
        with ih have "fst (convert_page env d pdf_texts n (Suc i + j) (images ! j) w0)
                        = Inr (prs' ! (length (prs @ [s]) + j))" by blast
        with Suc show ?thesis by simp
      qed
    qed
    with len pre1 show ?thesis by blast
  qed
qed

lemma page_text_for_Inr:
  "page_text_for pdf_texts i = Inr (if i < length pdf_texts then pdf_texts ! i else [])"
  by (simp add: page_text_for_def py_getitem_nat)

lemma save_image_ok:
  "jpeg_attempt img = None \<or> png_res img = None \<Longrightarrow> \<exists>p. fst (save_image d i img w) = Inr p"
  by (auto simp: save_image_def Let_def split: option.splits)

lemma create_slide_ok:
  "(case open_res img of None \<Rightarrow> True | Some e \<Rightarrow> on_thumbnail_error env e = None) \<Longrightarrow>
   \<exists>s. create_editable_text_slide env text image_path page_num img = Inr s"
  by (auto simp: create_editable_text_slide_def Let_def split: option.splits)

lemma save_image_not_Inl:
  "jpeg_attempt img = None \<or> png_res img = None \<Longrightarrow> save_image d i img w \<noteq> (Inl e, w')"
  by (auto simp: save_image_def Let_def split: option.splits)

lemma convert_page_ok:
  assumes "page_image_ok env img"
  shows "\<exists>s. fst (convert_page env d pdf_texts n i img w) = Inr s"
proof -
  from assms have a: "jpeg_attempt img = None \<or> png_res img = None"
    and b: "(case open_res img of None \<Rightarrow> True | Some e \<Rightarrow> on_thumbnail_error env e = None)"
    by (simp_all add: page_image_ok_def)
  show ?thesis
    using create_slide_ok [OF b] save_image_not_Inl [OF a]
    by (auto simp: convert_page_def Let_def page_text_for_Inr split: prod.splits sum.splits)
qed

lemma convert_loop_ok:
  "\<forall>img \<in> set images. page_image_ok env img \<Longrightarrow>
   \<exists>prs' w'. convert_loop env d pdf_texts n i images prs w = (Inr prs', w')"
proof (induction images arbitrary: i prs w)
  case Nil
  then show ?case by simp
next
  case (Cons img images)
  from Cons.prems have "page_image_ok env img" by simp
  from convert_page_ok [OF this] obtain s where "fst (convert_page env d pdf_texts n i img w) = Inr s"
    by blast
  then obtain w1 where step: "convert_page env d pdf_texts n i img w = (Inr s, w1)"
    by (cases "convert_page env d pdf_texts n i img w") auto
  from Cons.prems have "\<forall>img \<in> set images. page_image_ok env img" by simp
  from Cons.IH [OF this] show ?case by (simp add: step)
qed

lemma folders_write_file_lookup:
  "lookup_path (write_file p e w) p = Some e"
  by (simp add: lookup_path_def write_file_def update_conv' split: prod.splits)

lemma lookup_path_logging [simp]: "lookup_path (logging lv msg w) p = lookup_path w p"
  by (simp add: lookup_path_def logging_def)

lemma lookup_path_folders: "folders w' = folders w \<Longrightarrow> lookup_path w' p = lookup_path w p"
  by (simp add: lookup_path_def)

lemma rmtree_cases:
  "try_except (rmtree env d (self, w)) rmtree_except = (r, (self', w')) \<Longrightarrow>
     r = Inr () \<and> self' = self \<and> folders w' = folders w \<and> flashes w' = flashes w
     \<and> set (logged w) \<subseteq> set (logged w')
     \<and> (case rmtree_res env d of
           None \<Rightarrow> dirs w' = removeAll d (dirs w)
         | Some e \<Rightarrow> dirs w' = dirs w)"
  by (auto simp: try_except_def rmtree_def rmtree_except_def logging_def split: option.splits)

lemma convert_finally_cases:
  assumes "convert_finally env (self, w) = (r, (self', w'))"
  shows "r = Inr () \<and> self' = self \<and> folders w' = folders w \<and> flashes w' = flashes w
     \<and> set (logged w) \<subseteq> set (logged w')
     \<and> dirs w' = (case temp_dir self of
                    None \<Rightarrow> dirs w
                  | Some d \<Rightarrow> if d \<noteq> [] \<and> d \<in> set (dirs w) \<and> rmtree_res env d = None
                              then removeAll d (dirs w) else dirs w)"
proof (cases "temp_dir self")
  case None
  with assms show ?thesis by (simp add: convert_finally_def)
next
  case (Some d)
  show ?thesis
  proof (cases "d \<noteq> [] \<and> d \<in> set (dirs w)")
    case True
    with assms Some have "try_except (rmtree env d (self, w)) rmtree_except = (r, (self', w'))"
      by (simp add: convert_finally_def)
    from rmtree_cases [OF this] True Some show ?thesis
      by (auto split: option.splits)
  next
    case False
    with assms Some show ?thesis by (auto simp: convert_finally_def)
  qed
qed

lemma convert_unfold:
  assumes "try_except (convert_try env pdf_path output_path max_pages (self, w)) convert_except = (r, (self1, w1))"
  shows "\<exists>w'. convert env self pdf_path output_path max_pages w = (r, (self1, w'))
            \<and> convert_finally env (self1, w1) = (Inr (), (self1, w'))"
proof -
  obtain r2 self2 w2 where fin: "convert_finally env (self1, w1) = (r2, (self2, w2))"
    by (metis surj_pair)
  from convert_finally_cases [OF fin] have "r2 = Inr ()" "self2 = self1" by simp_all
  with fin assms show ?thesis
    by (simp add: convert_def try_finally_def)
qed

lemma last_page_min: "(if (pc::int) > m then m else pc) = min pc m"
  by simp

lemma mkdtemp_Inr: "mkdtemp_res env = Inr name \<Longrightarrow> mkdtemp env = Inr (''/tmp/tmp'' @ name)"
  by (simp add: mkdtemp_def)

lemma mkdtemp_Inl: "mkdtemp_res env = Inl e \<Longrightarrow> mkdtemp env = Inl e"
  by (simp add: mkdtemp_def)

lemma write_file_fields [simp]:
  "dirs (write_file p e w) = dirs w" "flashes (write_file p e w) = flashes w"
  "logged (write_file p e w) = logged w"
  by (simp_all add: write_file_def split: prod.splits)

lemma logging_fields [simp]:
  "dirs (logging lv msg w) = dirs w" "flashes (logging lv msg w) = flashes w"
  "folders (logging lv msg w) = folders w" "logged (logging lv msg w) = logged w @ [(lv, msg)]"
  by (simp_all add: logging_def)

text \<open>The world in which the rasteriser is called.\<close>

lemma convert_try_general:
  assumes run: "convert_try env pdf_path output_path max_pages (self, w) = (r, (self', w'))"
    and mk: "mkdtemp_res env = Inr name"
  shows "self' = self\<lparr>temp_dir := Some (''/tmp/tmp'' @ name)\<rparr>
       \<and> dirs w' = (''/tmp/tmp'' @ name) # dirs w \<and> flashes w' = flashes w
       \<and> set (logged w) \<subseteq> set (logged w')
       \<and> (r \<noteq> Inr True \<longrightarrow> folders w' = folders w)"
  using run mkdtemp_Inr [OF mk]
  apply (simp add: convert_try_def Let_def split: sum.splits prod.splits if_splits option.splits)
  apply (auto dest!: extract_text_only_logs convert_loop_only_logs simp: only_logs_def)
  done

lemma convert_try_mkdtemp_fails:
  "mkdtemp_res env = Inl e \<Longrightarrow>
   convert_try env pdf_path output_path max_pages (self, w) = (Inl e, (self, w))"
  by (simp add: convert_try_def mkdtemp_Inl)


lemma convert_try_raster_fails:
  "mkdtemp_res env = Inr name \<Longrightarrow> get_pdf_page_count env pdf_path = Inr pc \<Longrightarrow>
   convert_from_path env pdf_path (min pc max_pages) = Inl e \<Longrightarrow>
   fst (convert_try env pdf_path output_path max_pages (self, w)) = Inl e"
  by (auto simp: convert_try_def mkdtemp_Inr Let_def min_def split: prod.splits)

lemma convert_try_no_images:
  "mkdtemp_res env = Inr name \<Longrightarrow> get_pdf_page_count env pdf_path = Inr pc \<Longrightarrow>
   convert_from_path env pdf_path (min pc max_pages) = Inr [] \<Longrightarrow>
   fst (convert_try env pdf_path output_path max_pages (self, w)) = Inr False"
  by (auto simp: convert_try_def mkdtemp_Inr Let_def min_def split: prod.splits)

lemma convert_try_success:
  assumes mk: "mkdtemp_res env = Inr name"
    and pc: "get_pdf_page_count env pdf_path = Inr pc"
    and im: "convert_from_path env pdf_path (min pc max_pages) = Inr images"
    and ne: "images \<noteq> []"
    and ok: "\<forall>img \<in> set images. page_image_ok env img"
    and sv: "save_res env output_path = None"
  shows "\<exists>prs st w2.
           convert_try env pdf_path output_path max_pages (self, w) = (Inr True, st)
         \<and> length prs = length images
         \<and> lookup_path (snd st) output_path
             = Some \<lparr>is_file = True, mtime = clock env, deck = Some prs\<rparr>
         \<and> (max_pages < pc \<longrightarrow>
              (WARNING, ''PDF has '' @ str_int pc @ '' pages, limiting to '' @ str_int max_pages
                 @ '' pages'') \<in> set (logged (snd st)))"
proof -
  let ?d = "''/tmp/tmp'' @ name"
  let ?w0 = "logging INFO (''Created temporary directory: '' @ ?d) (w\<lparr>dirs := ?d # dirs w\<rparr>)"
  let ?w1 = "if pc > max_pages
             then logging WARNING (''PDF has '' @ str_int pc @ '' pages, limiting to ''
                    @ str_int max_pages @ '' pages'') ?w0
             else ?w0"
  obtain texts w2 where ex: "extract_text_from_pdf env pdf_path (min pc max_pages) ?w1 = (texts, w2)"
    by (metis surj_pair)
  let ?w3 = "logging INFO (''Converting PDF to images: '' @ pdf_path @ '' (pages 1-''
               @ str_int (min pc max_pages) @ '')'') w2"
  let ?w4 = "logging INFO (''Generated '' @ str_nat (length images) @ '' images from PDF'') ?w3"
  from convert_loop_ok [OF ok] obtain prs w5
    where lp: "convert_loop env ?d texts (length images) 0 images [] ?w4 = (Inr prs, w5)"
    by blast
  let ?st = "(self\<lparr>temp_dir := Some ?d\<rparr>,
              logging INFO (''PowerPoint presentation saved: '' @ output_path)
                (write_file output_path \<lparr>is_file = True, mtime = clock env, deck = Some prs\<rparr> w5))"
  have run: "convert_try env pdf_path output_path max_pages (self, w) = (Inr True, ?st)"
    unfolding convert_try_def
    by (simp only: mkdtemp_Inr [OF mk] pc im ne sv ex lp last_page_min Let_def
        sum.case prod.case option.case if_False)
  have len: "length prs = length images"
    using convert_loop_slides [OF lp] by simp
  have lk: "lookup_path (snd ?st) output_path
              = Some \<lparr>is_file = True, mtime = clock env, deck = Some prs\<rparr>"
    by (simp add: folders_write_file_lookup)
  have lg: "max_pages < pc \<longrightarrow>
              (WARNING, ''PDF has '' @ str_int pc @ '' pages, limiting to '' @ str_int max_pages
                 @ '' pages'') \<in> set (logged (snd ?st))"
  proof
    assume c: "max_pages < pc"
    then have "(WARNING, ''PDF has '' @ str_int pc @ '' pages, limiting to '' @ str_int max_pages
                 @ '' pages'') \<in> set (logged ?w1)"
      by simp
    moreover have "set (logged ?w1) \<subseteq> set (logged w2)"
      using extract_text_only_logs [OF ex] by (rule only_logs_set)
    moreover have "set (logged ?w4) \<subseteq> set (logged w5)"
      using convert_loop_only_logs [OF lp] by (rule only_logs_set)
    moreover have "set (logged w2) \<subseteq> set (logged ?w4)" by auto
    moreover have "set (logged w5) \<subseteq> set (logged (snd ?st))" by auto
    ultimately show "(WARNING, ''PDF has '' @ str_int pc @ '' pages, limiting to '' @ str_int max_pages
                 @ '' pages'') \<in> set (logged (snd ?st))"
      by blast
  qed
  from run len lk lg show ?thesis by blast
qed

lemma convert_try_True_inv:
  assumes run: "convert_try env pdf_path output_path max_pages (self, w) = (Inr True, (self', w'))"
  shows "\<exists>d pc images prs w1 w2 w3.
           get_pdf_page_count env pdf_path = Inr pc
         \<and> convert_from_path env pdf_path (min pc max_pages) = Inr images
         \<and> convert_loop env d (fst (extract_text_from_pdf env pdf_path (min pc max_pages) w1))
               (length images) 0 images [] w2 = (Inr prs, w3)
         \<and> lookup_path w' output_path = Some \<lparr>is_file = True, mtime = clock env, deck = Some prs\<rparr>"
  using run
  apply (simp add: convert_try_def Let_def last_page_min
      split: sum.splits prod.splits if_splits option.splits)
  apply (auto simp: folders_write_file_lookup)
   apply (metis fst_conv)+
  done

lemma convert_result:
  assumes run: "convert_try env pdf_path output_path max_pages (self, w) = (r, (self1, w1))"
  shows "\<exists>w'. convert env self pdf_path output_path max_pages w
                 = ((case r of Inl e \<Rightarrow> Inr False | Inr b \<Rightarrow> Inr b), (self1, w'))
            \<and> folders w' = folders w1 \<and> flashes w' = flashes w1
            \<and> set (logged w1) \<subseteq> set (logged w')
            \<and> (\<forall>e. r = Inl e \<longrightarrow>
                  (ERROR, ''Error during PDF to PowerPoint conversion: '' @ str_exc e)
                    \<in> set (logged w'))
            \<and> dirs w' = (case temp_dir self1 of
                           None \<Rightarrow> dirs w1
                         | Some d \<Rightarrow> if d \<noteq> [] \<and> d \<in> set (dirs w1) \<and> rmtree_res env d = None
                                     then removeAll d (dirs w1) else dirs w1)"
proof (cases r)
  case (Inl e)
  let ?w2 = "logging ERROR (''Error during PDF to PowerPoint conversion: '' @ str_exc e) w1"
  have te: "try_except (convert_try env pdf_path output_path max_pages (self, w)) convert_except
              = (Inr False, (self1, ?w2))"
    by (simp add: run Inl try_except_def convert_except_def)
  from convert_unfold [OF te] obtain w'
    where c: "convert env self pdf_path output_path max_pages w = (Inr False, (self1, w'))"
      and f: "convert_finally env (self1, ?w2) = (Inr (), (self1, w'))"
    by blast
  from convert_finally_cases [OF f] c Inl show ?thesis
    by (auto cong: option.case_cong if_cong)
next
  case (Inr b)
  have te: "try_except (convert_try env pdf_path output_path max_pages (self, w)) convert_except
              = (Inr b, (self1, w1))"
    by (simp add: run Inr try_except_def)
  from convert_unfold [OF te] obtain w'
    where c: "convert env self pdf_path output_path max_pages w = (Inr b, (self1, w'))"
      and f: "convert_finally env (self1, w1) = (Inr (), (self1, w'))"
    by blast
  from convert_finally_cases [OF f] c Inr show ?thesis
    by auto
qed

lemma convert_fst:
  "fst (convert env self pdf_path output_path max_pages w)
     = (case fst (convert_try env pdf_path output_path max_pages (self, w)) of
          Inl e \<Rightarrow> Inr False | Inr b \<Rightarrow> Inr b)"
proof -
  obtain r self1 w1 where run: "convert_try env pdf_path output_path max_pages (self, w) = (r, (self1, w1))"
    by (metis surj_pair)
  from convert_result [OF run] show ?thesis by (auto simp: run)
qed


lemma convert_failure_keeps_folders:
  assumes "fst (convert_try env pdf_path output_path max_pages (self, w)) \<noteq> Inr True"
  shows "folders (snd (snd (convert env self pdf_path output_path max_pages w))) = folders w"
proof -
  obtain r self1 w1 where run: "convert_try env pdf_path output_path max_pages (self, w) = (r, (self1, w1))"
    by (metis surj_pair)
  with assms have nt: "r \<noteq> Inr True" by simp
  have "folders w1 = folders w"
  proof (cases "mkdtemp_res env")
    case (Inl e)
    from convert_try_mkdtemp_fails [OF Inl, of pdf_path output_path max_pages self w] run
    show ?thesis by simp
  next
    case (Inr name)
    from convert_try_general [OF run Inr] nt show ?thesis by simp
  qed
  moreover from convert_result [OF run] have "folders (snd (snd (convert env self pdf_path output_path max_pages w))) = folders w1"
    by auto
  ultimately show ?thesis by simp
qed

lemma convert_error_logged:
  assumes "fst (convert_try env pdf_path output_path max_pages (self, w)) = Inl e"
  shows "(ERROR, ''Error during PDF to PowerPoint conversion: '' @ str_exc e)
           \<in> set (logged (snd (snd (convert env self pdf_path output_path max_pages w))))"
proof -
  obtain r self1 w1 where run: "convert_try env pdf_path output_path max_pages (self, w) = (r, (self1, w1))"
    by (metis surj_pair)
  with assms have "r = Inl e" by simp
  with convert_result [OF run] show ?thesis by auto
qed

lemma str_int_30: "str_int 30 = ''30''"
  by code_simp

lemma str_int_nat: "str_int (int n) = str_nat n"
  by (simp add: str_int_def)

lemma convert_try_no_images_logged:
  assumes mk: "mkdtemp_res env = Inr name"
    and pc: "get_pdf_page_count env pdf_path = Inr pc"
    and im: "convert_from_path env pdf_path (min pc max_pages) = Inr []"
  shows "\<exists>st. convert_try env pdf_path output_path max_pages (self, w) = (Inr False, st)
            \<and> (ERROR, ''No images generated from PDF'') \<in> set (logged (snd st))"
  using assms
  by (auto simp: convert_try_def mkdtemp_Inr Let_def min_def split: prod.splits)

lemma convert_no_images:
  assumes mk: "mkdtemp_res env = Inr name"
    and pc: "get_pdf_page_count env pdf_path = Inr pc"
    and im: "convert_from_path env pdf_path (min pc max_pages) = Inr []"
  shows "fst (convert env self pdf_path output_path max_pages w) = Inr False
       \<and> (ERROR, ''No images generated from PDF'')
            \<in> set (logged (snd (snd (convert env self pdf_path output_path max_pages w))))
       \<and> folders (snd (snd (convert env self pdf_path output_path max_pages w))) = folders w"
proof -
  from convert_try_no_images_logged [OF mk pc im, of output_path self w]
  obtain self1 w1
    where t: "convert_try env pdf_path output_path max_pages (self, w) = (Inr False, (self1, w1))"
      and l: "(ERROR, ''No images generated from PDF'') \<in> set (logged w1)"
    by auto
  from convert_result [OF t] l
  have "(ERROR, ''No images generated from PDF'')
            \<in> set (logged (snd (snd (convert env self pdf_path output_path max_pages w))))"
    by auto
  moreover have "fst (convert_try env pdf_path output_path max_pages (self, w)) \<noteq> Inr True"
    by (simp add: t)
  then have "folders (snd (snd (convert env self pdf_path output_path max_pages w))) = folders w"
    by (rule convert_failure_keeps_folders)
  moreover have "fst (convert env self pdf_path output_path max_pages w) = Inr False"
    by (simp add: convert_fst t)
  ultimately show ?thesis by simp
qed

lemma convert_raster_raises:
  assumes mk: "mkdtemp_res env = Inr name"
    and pc: "get_pdf_page_count env pdf_path = Inr pc"
    and im: "convert_from_path env pdf_path (min pc max_pages) = Inl e"
  shows "fst (convert env self pdf_path output_path max_pages w) = Inr False
       \<and> (ERROR, ''Error during PDF to PowerPoint conversion: '' @ str_exc e)
            \<in> set (logged (snd (snd (convert env self pdf_path output_path max_pages w))))
       \<and> folders (snd (snd (convert env self pdf_path output_path max_pages w))) = folders w"
proof -
  have t: "fst (convert_try env pdf_path output_path max_pages (self, w)) = Inl e"
    by (rule convert_try_raster_fails [OF mk pc im])
  then have "fst (convert_try env pdf_path output_path max_pages (self, w)) \<noteq> Inr True" by simp
  from convert_failure_keeps_folders [OF this] convert_error_logged [OF t] t
  show ?thesis by (simp add: convert_fst)
qed

lemma convert_images_give_slides:
  assumes mk: "mkdtemp_res env = Inr name"
    and pc: "get_pdf_page_count env pdf_path = Inr pc"
    and im: "convert_from_path env pdf_path (min pc max_pages) = Inr images"
    and ne: "images \<noteq> []"
    and ok: "list_all (page_image_ok env) images"
    and sv: "save_res env output_path = None"
  shows "\<exists>st e prs.
           convert env self pdf_path output_path max_pages w = (Inr True, st)
         \<and> lookup_path (snd st) output_path = Some e \<and> deck e = Some prs
         \<and> length prs = length images
         \<and> (max_pages < pc \<longrightarrow>
              (WARNING, ''PDF has '' @ str_int pc @ '' pages, limiting to '' @ str_int max_pages
                 @ '' pages'') \<in> set (logged (snd st)))"
proof -
  from ok have ok': "\<forall>img \<in> set images. page_image_ok env img" by (simp add: list_all_iff)
  from convert_try_success [OF mk pc im ne ok' sv, of self w]
  obtain prs st1
    where run: "convert_try env pdf_path output_path max_pages (self, w) = (Inr True, st1)"
      and l: "length prs = length images"
      and lk: "lookup_path (snd st1) output_path
                 = Some \<lparr>is_file = True, mtime = clock env, deck = Some prs\<rparr>"
      and lg: "max_pages < pc \<longrightarrow>
                 (WARNING, ''PDF has '' @ str_int pc @ '' pages, limiting to '' @ str_int max_pages
                    @ '' pages'') \<in> set (logged (snd st1))"
    by (metis (no_types, lifting))
  obtain self1 w1 where st1: "st1 = (self1, w1)" by (cases st1)
  from convert_result [OF run [unfolded st1]] obtain w'
    where c: "convert env self pdf_path output_path max_pages w = (Inr True, (self1, w'))"
      and f: "folders w' = folders w1" and s: "set (logged w1) \<subseteq> set (logged w')"
    by auto
  have "lookup_path w' output_path = Some \<lparr>is_file = True, mtime = clock env, deck = Some prs\<rparr>"
    using lk st1 lookup_path_folders [OF f] by simp
  moreover have "max_pages < pc \<longrightarrow>
      (WARNING, ''PDF has '' @ str_int pc @ '' pages, limiting to '' @ str_int max_pages
                 @ '' pages'') \<in> set (logged w')"
    using lg s st1 by auto
  ultimately show ?thesis
    using c l by auto
qed

text \<open>
  Claim C1, as amended. Take a run of \<open>convert\<close> with \<open>max_pages = 30\<close> in which the temporary
  directory is made, the page count is \<open>P\<close>, the rasteriser returns exactly \<open>min P 30\<close> images,
  each of which the slide loop gets through (it can be stored, as JPEG or else as PNG, and the
  thumbnail statement does not raise), and the presentation can be saved. If \<open>P \<ge> 1\<close>,
  \<open>convert\<close> returns \<open>True\<close> and the presentation written to the output path has exactly
  \<open>min P 30\<close> slides, and when \<open>P > 30\<close> the warning about the limit is in the log. If \<open>P = 0\<close>,
  \<open>convert\<close> returns \<open>False\<close>, logs that no images were generated and writes no file.
\<close>

theorem convert_slide_count:
  assumes mk: "mkdtemp_res env = Inr name"
    and pc: "get_pdf_page_count env pdf_path = Inr (int P)"
    and im: "convert_from_path env pdf_path (int (min P 30)) = Inr images"
    and len: "length images = min P 30"
    and ok: "list_all (page_image_ok env) images"
    and sv: "save_res env output_path = None"
  shows "(1 \<le> P \<longrightarrow>
           (\<exists>st e prs.
              convert env self pdf_path output_path 30 w = (Inr True, st)
            \<and> lookup_path (snd st) output_path = Some e \<and> deck e = Some prs
            \<and> length prs = min P 30
            \<and> (30 < P \<longrightarrow>
                 (WARNING, ''PDF has '' @ str_nat P @ '' pages, limiting to 30 pages'')
                   \<in> set (logged (snd st)))))
       \<and> (P = 0 \<longrightarrow>
            fst (convert env self pdf_path output_path 30 w) = Inr False
          \<and> (ERROR, ''No images generated from PDF'')
               \<in> set (logged (snd (snd (convert env self pdf_path output_path 30 w))))
          \<and> folders (snd (snd (convert env self pdf_path output_path 30 w))) = folders w)"
proof (intro conjI impI)
  assume pos: "1 \<le> P"
  have m: "min (int P) 30 = int (min P 30)" by simp
  have ne: "images \<noteq> []" using len pos by auto
  from convert_images_give_slides [OF mk pc im [folded m] ne ok sv, of self w]
  show "\<exists>st e prs.
              convert env self pdf_path output_path 30 w = (Inr True, st)
            \<and> lookup_path (snd st) output_path = Some e \<and> deck e = Some prs
            \<and> length prs = min P 30
            \<and> (30 < P \<longrightarrow>
                 (WARNING, ''PDF has '' @ str_nat P @ '' pages, limiting to 30 pages'')
                   \<in> set (logged (snd st)))"
    using len by (auto simp: str_int_30 str_int_nat)
next
  assume z: "P = 0"
  then have e: "images = []" using len by simp
  have im0: "convert_from_path env pdf_path (min (int P) 30) = Inr []"
    using im e z by simp
  note r = convert_no_images [OF mk pc im0, of self output_path w]
  from r show "fst (convert env self pdf_path output_path 30 w) = Inr False" by simp
  from r show "(ERROR, ''No images generated from PDF'')
               \<in> set (logged (snd (snd (convert env self pdf_path output_path 30 w))))" by simp
  from r show "folders (snd (snd (convert env self pdf_path output_path 30 w))) = folders w" by simp
qed

theorem convert_slide_count_witness:
  "mkdtemp_res (sample_env (Inr 31) (Inr []) (Inr (replicate 30 sample_image)) None) = Inr ''abc''
   \<and> get_pdf_page_count (sample_env (Inr 31) (Inr []) (Inr (replicate 30 sample_image)) None) ''in.pdf''
       = Inr (int 31)
   \<and> convert_from_path (sample_env (Inr 31) (Inr []) (Inr (replicate 30 sample_image)) None) ''in.pdf''
        (int (min 31 30)) = Inr (replicate 30 sample_image)
   \<and> length (replicate 30 sample_image) = min 31 30
   \<and> list_all (page_image_ok (sample_env (Inr 31) (Inr []) (Inr (replicate 30 sample_image)) None))
         (replicate 30 sample_image)
   \<and> save_res (sample_env (Inr 31) (Inr []) (Inr (replicate 30 sample_image)) None) ''output/out.pptx'' = None
   \<and> (1::nat) \<le> 31
   \<and> (\<exists>st e prs.
         convert (sample_env (Inr 31) (Inr []) (Inr (replicate 30 sample_image)) None) init
           ''in.pdf'' ''output/out.pptx'' 30 sample_world = (Inr True, st)
       \<and> lookup_path (snd st) ''output/out.pptx'' = Some e \<and> deck e = Some prs
       \<and> length prs = 30
       \<and> (WARNING, ''PDF has 31 pages, limiting to 30 pages'') \<in> set (logged (snd st)))
   \<and> get_pdf_page_count (sample_env (Inr 0) (Inr []) (Inr []) None) ''in.pdf'' = Inr (int 0)
   \<and> convert_from_path (sample_env (Inr 0) (Inr []) (Inr []) None) ''in.pdf'' (int (min 0 30)) = Inr []
   \<and> fst (convert (sample_env (Inr 0) (Inr []) (Inr []) None) init ''in.pdf'' ''output/out.pptx'' 30
         sample_world) = Inr False"
proof -
  let ?env = "sample_env (Inr 31) (Inr []) (Inr (replicate 30 sample_image)) None"
  let ?empty = "sample_env (Inr 0) (Inr []) (Inr []) None"
  have h1: "mkdtemp_res ?env = Inr ''abc''" by (simp add: sample_env_def)
  have h2: "get_pdf_page_count ?env ''in.pdf'' = Inr (int 31)" by (simp add: sample_env_def)
  have h3: "(1::nat) \<le> 31" by simp
  have h4: "convert_from_path ?env ''in.pdf'' (int (min 31 30)) = Inr (replicate 30 sample_image)"
    by (simp add: sample_env_def)
  have h5: "length (replicate 30 sample_image) = min 31 30" by simp
  have h6: "list_all (page_image_ok ?env) (replicate 30 sample_image)"
    by (simp add: list_all_iff page_image_ok_def jpeg_attempt_def sample_image_def)
  have h7: "save_res ?env ''output/out.pptx'' = None" by (simp add: sample_env_def)
  have n: "str_nat 31 = ''31''" by code_simp
  from convert_slide_count [OF h1 h2 h4 h5 h6 h7, of init sample_world] h3
  have a: "\<exists>st e prs.
         convert ?env init ''in.pdf'' ''output/out.pptx'' 30 sample_world = (Inr True, st)
       \<and> lookup_path (snd st) ''output/out.pptx'' = Some e \<and> deck e = Some prs
       \<and> length prs = 30
       \<and> (WARNING, ''PDF has 31 pages, limiting to 30 pages'') \<in> set (logged (snd st))"
    by (simp add: n)
  have e1: "mkdtemp_res ?empty = Inr ''abc''" by (simp add: sample_env_def)
  have e2: "get_pdf_page_count ?empty ''in.pdf'' = Inr (int 0)" by (simp add: sample_env_def)
  have e4: "convert_from_path ?empty ''in.pdf'' (int (min 0 30)) = Inr []" by (simp add: sample_env_def)
  have e5: "length ([] :: image list) = min 0 30" by simp
  have e6: "list_all (page_image_ok ?empty) []" by simp
  have e7: "save_res ?empty ''output/out.pptx'' = None" by (simp add: sample_env_def)
  from convert_slide_count [OF e1 e2 e4 e5 e6 e7, of init sample_world]
  have b: "fst (convert ?empty init ''in.pdf'' ''output/out.pptx'' 30 sample_world) = Inr False"
    by simp
  from h1 h2 h3 h4 h5 h6 h7 a e2 e4 b show ?thesis by blast
qed

theorem empty_pdf_no_presentation_counterexample:
  "get_pdf_page_count (sample_env (Inr 0) (Inr []) (Inr []) None) ''in.pdf'' = Inr 0
   \<and> pdf_reader (sample_env (Inr 0) (Inr []) (Inr []) None) ''in.pdf'' = Inr []
   \<and> convert_from_path (sample_env (Inr 0) (Inr []) (Inr []) None) ''in.pdf'' 0 = Inr []
   \<and> fst (convert (sample_env (Inr 0) (Inr []) (Inr []) None) init ''in.pdf'' ''output/out.pptx'' 30
         sample_world) = Inr False
   \<and> lookup_path
       (snd (snd (convert (sample_env (Inr 0) (Inr []) (Inr []) None) init ''in.pdf''
          ''output/out.pptx'' 30 sample_world))) ''output/out.pptx'' = None"
proof -
  let ?env = "sample_env (Inr 0) (Inr []) (Inr []) None"
  have h1: "mkdtemp_res ?env = Inr ''abc''" by (simp add: sample_env_def)
  have h2: "get_pdf_page_count ?env ''in.pdf'' = Inr 0" by (simp add: sample_env_def)
  have h3: "convert_from_path ?env ''in.pdf'' (min 0 30) = Inr []" by (simp add: sample_env_def)
  have t: "fst (convert_try ?env ''in.pdf'' ''output/out.pptx'' 30 (init, sample_world)) = Inr False"
    by (rule convert_try_no_images [OF h1 h2 h3])
  then have r: "fst (convert ?env init ''in.pdf'' ''output/out.pptx'' 30 sample_world) = Inr False"
    by (simp add: convert_fst)
  from t have "folders (snd (snd (convert ?env init ''in.pdf'' ''output/out.pptx'' 30 sample_world)))
                = folders sample_world"
    by (intro convert_failure_keeps_folders) simp
  then have "lookup_path (snd (snd (convert ?env init ''in.pdf'' ''output/out.pptx'' 30 sample_world)))
               ''output/out.pptx'' = lookup_path sample_world ''output/out.pptx''"
    by (rule lookup_path_folders)
  also have "\<dots> = None"
    by (simp add: lookup_path_def sample_world_def split: prod.splits)
  finally show ?thesis using r by (simp add: sample_env_def)
qed



text \<open>
  Claim C8, as amended. Take a run of \<open>convert\<close> that gets as far as the rasteriser (the
  temporary directory is made, the page count obtained). When the rasteriser raises,
  \<open>convert\<close> returns \<open>False\<close>, the error is logged with the exception's message, and no file is
  written. When it returns no image at all, \<open>convert\<close> returns \<open>False\<close>, logs that no images
  were generated and writes no file. When it returns a list of images that is not empty,
  however many pages are missing from it, the job is not given up: if the slide loop gets
  through each image returned and the presentation can be saved, \<open>convert\<close> returns \<open>True\<close> and
  the presentation has one slide for each image returned.
\<close>

theorem rasterizer_raise_or_empty_aborts:
  assumes mk: "mkdtemp_res env = Inr name"
    and pc: "get_pdf_page_count env pdf_path = Inr pc"
  shows "(\<forall>e. convert_from_path env pdf_path (min pc max_pages) = Inl e \<longrightarrow>
            fst (convert env self pdf_path output_path max_pages w) = Inr False
          \<and> (ERROR, ''Error during PDF to PowerPoint conversion: '' @ str_exc e)
               \<in> set (logged (snd (snd (convert env self pdf_path output_path max_pages w))))
          \<and> folders (snd (snd (convert env self pdf_path output_path max_pages w))) = folders w)
       \<and> (convert_from_path env pdf_path (min pc max_pages) = Inr [] \<longrightarrow>
            fst (convert env self pdf_path output_path max_pages w) = Inr False
          \<and> (ERROR, ''No images generated from PDF'')
               \<in> set (logged (snd (snd (convert env self pdf_path output_path max_pages w))))
          \<and> folders (snd (snd (convert env self pdf_path output_path max_pages w))) = folders w)
       \<and> (\<forall>images. convert_from_path env pdf_path (min pc max_pages) = Inr images
              \<and> images \<noteq> [] \<and> list_all (page_image_ok env) images
              \<and> save_res env output_path = None \<longrightarrow>
            (\<exists>st e prs.
               convert env self pdf_path output_path max_pages w = (Inr True, st)
             \<and> lookup_path (snd st) output_path = Some e \<and> deck e = Some prs
             \<and> length prs = length images))"
proof -
  have a: "\<And>e. convert_from_path env pdf_path (min pc max_pages) = Inl e \<Longrightarrow>
            fst (convert env self pdf_path output_path max_pages w) = Inr False
          \<and> (ERROR, ''Error during PDF to PowerPoint conversion: '' @ str_exc e)
               \<in> set (logged (snd (snd (convert env self pdf_path output_path max_pages w))))
          \<and> folders (snd (snd (convert env self pdf_path output_path max_pages w))) = folders w"
    by (rule convert_raster_raises [OF mk pc])
  have b: "convert_from_path env pdf_path (min pc max_pages) = Inr [] \<Longrightarrow>
            fst (convert env self pdf_path output_path max_pages w) = Inr False
          \<and> (ERROR, ''No images generated from PDF'')
               \<in> set (logged (snd (snd (convert env self pdf_path output_path max_pages w))))
          \<and> folders (snd (snd (convert env self pdf_path output_path max_pages w))) = folders w"
    by (rule convert_no_images [OF mk pc])
  have c: "\<And>images. convert_from_path env pdf_path (min pc max_pages) = Inr images
              \<and> images \<noteq> [] \<and> list_all (page_image_ok env) images
              \<and> save_res env output_path = None \<Longrightarrow>
            (\<exists>st e prs.
               convert env self pdf_path output_path max_pages w = (Inr True, st)
             \<and> lookup_path (snd st) output_path = Some e \<and> deck e = Some prs
             \<and> length prs = length images)"
  proof -
    fix images
    assume h: "convert_from_path env pdf_path (min pc max_pages) = Inr images
              \<and> images \<noteq> [] \<and> list_all (page_image_ok env) images
              \<and> save_res env output_path = None"
    then have im: "convert_from_path env pdf_path (min pc max_pages) = Inr images"
      and ne: "images \<noteq> []" and ok: "list_all (page_image_ok env) images"
      and sv: "save_res env output_path = None"
      by simp_all
    from convert_images_give_slides [OF mk pc im ne ok sv, of self w]
    show "\<exists>st e prs.
               convert env self pdf_path output_path max_pages w = (Inr True, st)
             \<and> lookup_path (snd st) output_path = Some e \<and> deck e = Some prs
             \<and> length prs = length images"
      by blast
  qed
  from a b c show ?thesis by blast
qed

theorem rasterizer_raise_or_empty_aborts_witness:
  "mkdtemp_res (sample_env (Inr 2) (Inr [Inr ''a'', Inr ''b'']) (Inl (PyException ''pdftoppm failed'')) None)
      = Inr ''abc''
   \<and> get_pdf_page_count
        (sample_env (Inr 2) (Inr [Inr ''a'', Inr ''b'']) (Inl (PyException ''pdftoppm failed'')) None)
        ''in.pdf'' = Inr 2
   \<and> convert_from_path
        (sample_env (Inr 2) (Inr [Inr ''a'', Inr ''b'']) (Inl (PyException ''pdftoppm failed'')) None)
        ''in.pdf'' (min 2 30) = Inl (PyException ''pdftoppm failed'')
   \<and> fst (convert
        (sample_env (Inr 2) (Inr [Inr ''a'', Inr ''b'']) (Inl (PyException ''pdftoppm failed'')) None)
        init ''in.pdf'' ''output/out.pptx'' 30 sample_world) = Inr False
   \<and> convert_from_path (sample_env (Inr 2) (Inr [Inr ''a'', Inr ''b'']) (Inr []) None)
        ''in.pdf'' (min 2 30) = Inr []
   \<and> fst (convert (sample_env (Inr 2) (Inr [Inr ''a'', Inr ''b'']) (Inr []) None)
        init ''in.pdf'' ''output/out.pptx'' 30 sample_world) = Inr False
   \<and> convert_from_path (sample_env (Inr 2) (Inr [Inr ''a'', Inr ''b'']) (Inr [sample_image]) None)
        ''in.pdf'' (min 2 30) = Inr [sample_image]
   \<and> [sample_image] \<noteq> []
   \<and> list_all (page_image_ok (sample_env (Inr 2) (Inr [Inr ''a'', Inr ''b'']) (Inr [sample_image]) None))
        [sample_image]
   \<and> save_res (sample_env (Inr 2) (Inr [Inr ''a'', Inr ''b'']) (Inr [sample_image]) None)
        ''output/out.pptx'' = None
   \<and> fst (convert (sample_env (Inr 2) (Inr [Inr ''a'', Inr ''b'']) (Inr [sample_image]) None)
        init ''in.pdf'' ''output/out.pptx'' 30 sample_world) = Inr True"
proof -
  let ?raise = "sample_env (Inr 2) (Inr [Inr ''a'', Inr ''b'']) (Inl (PyException ''pdftoppm failed'')) None"
  let ?none = "sample_env (Inr 2) (Inr [Inr ''a'', Inr ''b'']) (Inr []) None"
  let ?one = "sample_env (Inr 2) (Inr [Inr ''a'', Inr ''b'']) (Inr [sample_image]) None"
  have r1: "mkdtemp_res ?raise = Inr ''abc''" by (simp add: sample_env_def)
  have r2: "get_pdf_page_count ?raise ''in.pdf'' = Inr 2" by (simp add: sample_env_def)
  have r3: "convert_from_path ?raise ''in.pdf'' (min 2 30) = Inl (PyException ''pdftoppm failed'')"
    by (simp add: sample_env_def)
  from rasterizer_raise_or_empty_aborts [OF r1 r2, of 30 init "''output/out.pptx''" sample_world] r3
  have a: "fst (convert ?raise init ''in.pdf'' ''output/out.pptx'' 30 sample_world) = Inr False"
    by blast
  have n1: "mkdtemp_res ?none = Inr ''abc''" by (simp add: sample_env_def)
  have n2: "get_pdf_page_count ?none ''in.pdf'' = Inr 2" by (simp add: sample_env_def)
  have n3: "convert_from_path ?none ''in.pdf'' (min 2 30) = Inr []" by (simp add: sample_env_def)
  from rasterizer_raise_or_empty_aborts [OF n1 n2, of 30 init "''output/out.pptx''" sample_world] n3
  have b: "fst (convert ?none init ''in.pdf'' ''output/out.pptx'' 30 sample_world) = Inr False"
    by blast
  have o1: "mkdtemp_res ?one = Inr ''abc''" by (simp add: sample_env_def)
  have o2: "get_pdf_page_count ?one ''in.pdf'' = Inr 2" by (simp add: sample_env_def)
  have o3: "convert_from_path ?one ''in.pdf'' (min 2 30) = Inr [sample_image]"
    by (simp add: sample_env_def)
  have o4: "[sample_image] \<noteq> []" by simp
  have o5: "list_all (page_image_ok ?one) [sample_image]"
    by (simp add: page_image_ok_def jpeg_attempt_def sample_image_def)
  have o6: "save_res ?one ''output/out.pptx'' = None" by (simp add: sample_env_def)
  from rasterizer_raise_or_empty_aborts [OF o1 o2, of 30 init "''output/out.pptx''" sample_world] o3 o4 o5 o6
  have "\<exists>st e prs.
               convert ?one init ''in.pdf'' ''output/out.pptx'' 30 sample_world = (Inr True, st)
             \<and> lookup_path (snd st) ''output/out.pptx'' = Some e \<and> deck e = Some prs
             \<and> length prs = length [sample_image]"
    by blast
  then have c: "fst (convert ?one init ''in.pdf'' ''output/out.pptx'' 30 sample_world) = Inr True"
    by auto
  from r1 r2 r3 a n3 b o3 o4 o5 o6 c show ?thesis by blast
qed

theorem missing_page_tolerated_counterexample:
  "get_pdf_page_count (sample_env (Inr 2) (Inr [Inr ''a'', Inr ''b'']) (Inr [sample_image]) None)
      ''in.pdf'' = Inr 2
   \<and> convert_from_path (sample_env (Inr 2) (Inr [Inr ''a'', Inr ''b'']) (Inr [sample_image]) None)
        ''in.pdf'' (min 2 30) = Inr [sample_image]
   \<and> fst (convert (sample_env (Inr 2) (Inr [Inr ''a'', Inr ''b'']) (Inr [sample_image]) None)
        init ''in.pdf'' ''output/out.pptx'' 30 sample_world) = Inr True
   \<and> map_option length
        (content_texts
           (snd (snd (convert (sample_env (Inr 2) (Inr [Inr ''a'', Inr ''b'']) (Inr [sample_image]) None)
              init ''in.pdf'' ''output/out.pptx'' 30 sample_world))) ''output/out.pptx'') = Some 1"
  by code_simp




section \<open>The content of the slides\<close>

lemma extract_texts_world:
  "fst (extract_text_from_pdf env pdf_path max_pages w)
     = fst (extract_text_from_pdf env pdf_path max_pages w0)"
proof (cases "pdf_reader env pdf_path")
  case (Inl e)
  then show ?thesis by (simp add: extract_text_from_pdf_def)
next
  case (Inr pages)
  then show ?thesis by (simp add: extract_texts)
qed

lemma convert_page_content:
  assumes "fst (convert_page env d pdf_texts n i img w) = Inr s"
  shows "content_frame s =
     (if (if i < length pdf_texts then pdf_texts ! i else []) = []
         \<or> length (strip (if i < length pdf_texts then pdf_texts ! i else [])) < 20
      then style_first placeholder_style (set_frame_text (placeholder_text (i + 1)))
      else if startswith (if i < length pdf_texts then pdf_texts ! i else []) ''[Edit this text''
      then style_first placeholder_style
             (set_frame_text (if i < length pdf_texts then pdf_texts ! i else []))
      else add_paragraphs 0
             (str_split nl (clean_extracted_text env (if i < length pdf_texts then pdf_texts ! i else [])))
             new_text_frame)"
  using assms startswith_placeholder [of "i + 1"]
  by (auto simp: convert_page_def Let_def page_text_for_Inr
      split: prod.splits sum.splits if_splits dest!: create_slide_content)

lemma convert_True_deck:
  assumes run: "convert env self pdf_path output_path max_pages w = (Inr True, (self', w'))"
    and pc: "get_pdf_page_count env pdf_path = Inr pc"
    and out: "lookup_path w' output_path = Some e" "deck e = Some prs"
    and i: "i < length prs"
  shows "\<exists>d n img w1.
           fst (convert_page env d (fst (extract_text_from_pdf env pdf_path (min pc max_pages) w0))
                  n i img w1) = Inr (prs ! i)"
proof -
  obtain r self1 w1 where t: "convert_try env pdf_path output_path max_pages (self, w) = (r, (self1, w1))"
    by (metis surj_pair)
  from convert_result [OF t] run have r: "r = Inr True" and s1: "self1 = self'"
    and f: "folders w' = folders w1"
    by (auto split: sum.splits)
  from convert_try_True_inv [OF t [unfolded r]] pc
  obtain d images prs0 wa wb wc
    where lp: "convert_loop env d (fst (extract_text_from_pdf env pdf_path (min pc max_pages) wa))
                 (length images) 0 images [] wb = (Inr prs0, wc)"
      and lk: "lookup_path w1 output_path = Some \<lparr>is_file = True, mtime = clock env, deck = Some prs0\<rparr>"
    by auto
  from lk lookup_path_folders [OF f, of output_path] out have p: "prs0 = prs" by simp
  from convert_loop_slides [OF lp, of wb] p i
  have "fst (convert_page env d (fst (extract_text_from_pdf env pdf_path (min pc max_pages) wa))
               (length images) i (images ! i) wb) = Inr (prs ! i)"
    by simp
  then show ?thesis
    using extract_texts_world [of env pdf_path "min pc max_pages" wa w0] by metis
qed

text \<open>
  Claim C2, as amended. In the presentation that a successful \<open>convert\<close> writes, take the
  slide of page \<open>i + 1\<close> and the text extracted for that page (the empty string where there is
  none). If the text is empty or shorter than 20 characters after trimming, the text of the
  content box is the placeholder, which begins with
  \<open>[Edit this text - Content from page i+1]\<close>. Otherwise the paragraphs of the content box are
  the lines of the extracted text itself when it begins with \<open>[Edit this text\<close>, and else the
  lines of \<open>clean_extracted_text\<close> of it, each trimmed, blank lines after the first left out.
\<close>

theorem slide_content_placeholder_or_cleaned_lines:
  assumes run: "convert env self pdf_path output_path max_pages w = (Inr True, (self', w'))"
    and pc: "get_pdf_page_count env pdf_path = Inr pc"
    and out: "lookup_path w' output_path = Some e" "deck e = Some prs"
    and i: "i < length prs"
    and pt: "page_text = (if i < length (fst (extract_text_from_pdf env pdf_path (min pc max_pages) w0))
                          then fst (extract_text_from_pdf env pdf_path (min pc max_pages) w0) ! i
                          else [])"
  shows "(page_text = [] \<or> length (strip page_text) < 20 \<longrightarrow>
            frame_text (content_frame (prs ! i)) = placeholder_text (i + 1)
          \<and> prefix (''[Edit this text - Content from page '' @ str_nat (i + 1) @ '']'')
              (frame_text (content_frame (prs ! i))))
       \<and> (\<not> (page_text = [] \<or> length (strip page_text) < 20) \<longrightarrow>
            map p_text (content_frame (prs ! i)) =
              (if startswith page_text ''[Edit this text'' then str_split nl page_text
               else strip (hd (str_split nl (clean_extracted_text env page_text)))
                    # filter (\<lambda>l. l \<noteq> [])
                        (map strip (tl (str_split nl (clean_extracted_text env page_text))))))"
proof -
  from convert_True_deck [OF run pc out i, of w0] obtain d n img w1
    where "fst (convert_page env d (fst (extract_text_from_pdf env pdf_path (min pc max_pages) w0))
                  n i img w1) = Inr (prs ! i)"
    by blast
  from convert_page_content [OF this]
  have c: "content_frame (prs ! i) =
     (if page_text = [] \<or> length (strip page_text) < 20
      then style_first placeholder_style (set_frame_text (placeholder_text (i + 1)))
      else if startswith page_text ''[Edit this text''
      then style_first placeholder_style (set_frame_text page_text)
      else add_paragraphs 0 (str_split nl (clean_extracted_text env page_text)) new_text_frame)"
    unfolding pt .
  show ?thesis
  proof (intro conjI impI)
    assume a: "page_text = [] \<or> length (strip page_text) < 20"
    with c show f: "frame_text (content_frame (prs ! i)) = placeholder_text (i + 1)"
      by (simp only: if_True frame_text_placeholder)
    show "prefix (''[Edit this text - Content from page '' @ str_nat (i + 1) @ '']'')
              (frame_text (content_frame (prs ! i)))"
      unfolding f by (rule prefix_placeholder)
  next
    assume a: "\<not> (page_text = [] \<or> length (strip page_text) < 20)"
    show "map p_text (content_frame (prs ! i)) =
              (if startswith page_text ''[Edit this text'' then str_split nl page_text
               else strip (hd (str_split nl (clean_extracted_text env page_text)))
                    # filter (\<lambda>l. l \<noteq> [])
                        (map strip (tl (str_split nl (clean_extracted_text env page_text)))))"
    proof (cases "startswith page_text ''[Edit this text''")
      case True
      with a c have "content_frame (prs ! i) = style_first placeholder_style (set_frame_text page_text)"
        by (simp only: if_True if_False)
      then show ?thesis
        using True by (simp add: p_text_style_first placeholder_style_def texts_set_frame_text)
    next
      case False
      with a c have "content_frame (prs ! i)
                       = add_paragraphs 0 (str_split nl (clean_extracted_text env page_text)) new_text_frame"
        by (simp only: if_True if_False)
      then show ?thesis
        using False by (simp only: texts_add_paragraphs_split if_False)
    qed
  qed
qed

theorem slide_content_placeholder_or_cleaned_lines_witness:
  "convert two_page_env init ''in.pdf'' ''output/out.pptx'' 30 sample_world
     = (Inr True, snd (convert two_page_env init ''in.pdf'' ''output/out.pptx'' 30 sample_world))
   \<and> get_pdf_page_count two_page_env ''in.pdf'' = Inr 2
   \<and> fst (extract_text_from_pdf two_page_env ''in.pdf'' (min 2 30) sample_world)
       = [''short'', ''First line of the page '' @ [nl] @ '' second line'']
   \<and> content_texts (snd (snd (convert two_page_env init ''in.pdf'' ''output/out.pptx'' 30 sample_world)))
        ''output/out.pptx'' \<noteq> None
   \<and> frame_text (content_frame
        (the (deck (the (lookup_path
           (snd (snd (convert two_page_env init ''in.pdf'' ''output/out.pptx'' 30 sample_world)))
           ''output/out.pptx''))) ! 0)) = placeholder_text 1
   \<and> map p_text (content_frame
        (the (deck (the (lookup_path
           (snd (snd (convert two_page_env init ''in.pdf'' ''output/out.pptx'' 30 sample_world)))
           ''output/out.pptx''))) ! 1)) = [''First line of the page'', ''second line'']"
proof -
  let ?c = "convert two_page_env init ''in.pdf'' ''output/out.pptx'' 30 sample_world"
  let ?w = "snd (snd ?c)"
  let ?e = "the (lookup_path ?w ''output/out.pptx'')"
  let ?prs = "the (deck ?e)"
  let ?ts = "fst (extract_text_from_pdf two_page_env ''in.pdf'' (min 2 30) sample_world)"
  have r: "fst ?c = Inr True" by code_simp
  then have run: "?c = (Inr True, (fst (snd ?c), ?w))"
    by (metis prod.collapse)
  have pc: "get_pdf_page_count two_page_env ''in.pdf'' = Inr 2"
    by (simp add: two_page_env_def sample_env_def)
  have ct: "content_texts ?w ''output/out.pptx'' \<noteq> None" by code_simp
  then have lk: "lookup_path ?w ''output/out.pptx'' = Some ?e" and dk: "deck ?e = Some ?prs"
    by (auto simp: content_texts_def split: option.splits)
  have len: "length ?prs = 2" by code_simp
  have ts: "?ts = [''short'', ''First line of the page '' @ [nl] @ '' second line'']" by code_simp
  have i0: "0 < length ?prs" and i1: "1 < length ?prs" using len by simp_all
  have p0: "''short'' = (if 0 < length ?ts then ?ts ! 0 else [])" unfolding ts by simp
  have p1: "''First line of the page '' @ [nl] @ '' second line''
              = (if 1 < length ?ts then ?ts ! 1 else [])" unfolding ts by simp
  have s0: "''short'' = [] \<or> length (strip ''short'') < 20" by code_simp
  have s1: "\<not> (''First line of the page '' @ [nl] @ '' second line'' = []
               \<or> length (strip (''First line of the page '' @ [nl] @ '' second line'')) < 20)"
    by code_simp
  have rhs: "(if startswith (''First line of the page '' @ [nl] @ '' second line'') ''[Edit this text''
              then str_split nl (''First line of the page '' @ [nl] @ '' second line'')
              else strip (hd (str_split nl (clean_extracted_text two_page_env
                               (''First line of the page '' @ [nl] @ '' second line''))))
                   # filter (\<lambda>l. l \<noteq> [])
                       (map strip (tl (str_split nl (clean_extracted_text two_page_env
                               (''First line of the page '' @ [nl] @ '' second line''))))))
             = [''First line of the page'', ''second line'']"
    by code_simp
  from slide_content_placeholder_or_cleaned_lines [OF run pc lk dk i0 p0] s0
  have a: "frame_text (content_frame (?prs ! 0)) = placeholder_text 1" by simp
  from slide_content_placeholder_or_cleaned_lines [OF run pc lk dk i1 p1] s1
  have b: "map p_text (content_frame (?prs ! 1)) = [''First line of the page'', ''second line'']"
    unfolding rhs [symmetric] by blast
  from run pc ts ct a b show ?thesis by simp
qed

text \<open>
  Whatever \<open>clean_extracted_text\<close> does, a content box filled from extracted text never has a
  space in front of a newline, so it does not contain an extracted text that has one.
\<close>

lemma str_split_no_sep: "l \<in> set (str_split c s) \<Longrightarrow> c \<notin> set l"
proof (induction s arbitrary: l)
  case Nil
  then show ?case by simp
next
  case (Cons x xs)
  show ?case
  proof (cases "x = c")
    case True
    with Cons show ?thesis by auto
  next
    case False
    obtain w ws where sp: "str_split c xs = w # ws"
      using str_split_not_Nil by (cases "str_split c xs") auto
    with Cons.prems False have "l = x # w \<or> l \<in> set ws" by simp
    then show ?thesis
    proof
      assume "l = x # w"
      moreover have "c \<notin> set w" using Cons.IH [of w] sp by simp
      ultimately show ?thesis using False by auto
    next
      assume "l \<in> set ws"
      then show ?thesis using Cons.IH [of l] sp by simp
    qed
  qed
qed

lemma set_strip: "set (strip s) \<subseteq> set s"
  using sublist_strip set_mono_sublist by blast

lemma no_space_newline_join:
  assumes "\<forall>x \<in> set xs. nl \<notin> set x \<and> (x = [] \<or> last x \<noteq> CHR '' '')"
  shows "\<not> sublist [CHR '' '', nl] (join [nl] xs)"
  using assms
proof (induction xs)
  case Nil
  then show ?case by simp
next
  case (Cons x rest)
  have nx: "nl \<notin> set x" and lx: "x = [] \<or> last x \<noteq> CHR '' ''" using Cons.prems by simp_all
  have ih: "\<not> sublist [CHR '' '', nl] (join [nl] rest)" using Cons by simp
  have sp: "CHR '' '' \<noteq> nl" by (simp add: nl_def)
  have inx: "\<not> sublist [CHR '' '', nl] x"
  proof
    assume "sublist [CHR '' '', nl] x"
    then have "set [CHR '' '', nl] \<subseteq> set x" by (rule set_mono_sublist)
    with nx show False by simp
  qed
  show ?case
  proof (cases rest)
    case Nil
    with inx show ?thesis by simp
  next
    case rest: (Cons y ys)
    show ?thesis
    proof
      assume "sublist [CHR '' '', nl] (join [nl] (x # rest))"
      then have "sublist [CHR '' '', nl] (x @ nl # join [nl] (y # ys))" using rest by simp
      then obtain ps ss where eq: "x @ nl # join [nl] (y # ys) = ps @ [CHR '' '', nl] @ ss"
        by (auto simp: sublist_def)
      show False
      proof (cases "length ps + 1 < length x")
        case True
        then have "(ps @ [CHR '' '', nl] @ ss) ! (length ps + 1) = x ! (length ps + 1)"
          using eq by (metis nth_append)
        moreover have "(ps @ [CHR '' '', nl] @ ss) ! (length ps + 1) = nl"
          by (simp add: nth_append)
        ultimately have "nl \<in> set x" using True by (metis nth_mem)
        with nx show False by simp
      next
        case False
        show False
        proof (cases "length ps + 1 = length x")
          case True
          then have "x \<noteq> []" by auto
          have "x ! length ps = (ps @ [CHR '' '', nl] @ ss) ! length ps"
            using eq True by (metis less_add_one nth_append)
          then have "x ! length ps = CHR '' ''" by (simp add: nth_append)
          moreover have "last x = x ! length ps"
          proof -
            have "length x - 1 = length ps" using True by simp
            then show ?thesis using \<open>x \<noteq> []\<close> by (simp add: last_conv_nth)
          qed
          ultimately show False using lx \<open>x \<noteq> []\<close> by simp
        next
          case F2: False
          with False have ge: "length x \<le> length ps" by simp
          have "drop (length x) (x @ nl # join [nl] (y # ys)) = drop (length x) (ps @ [CHR '' '', nl] @ ss)"
            using eq by simp
          then have e2: "nl # join [nl] (y # ys) = drop (length x) ps @ [CHR '' '', nl] @ ss"
            using ge by simp
          show False
          proof (cases "drop (length x) ps")
            case Nil
            with e2 sp show False by simp
          next
            case (Cons a as)
            with e2 have "join [nl] (y # ys) = as @ [CHR '' '', nl] @ ss" by simp
            then have "sublist [CHR '' '', nl] (join [nl] (y # ys))"
              by (metis sublist_appendI)
            with ih rest show False by simp
          qed
        qed
      qed
    qed
  qed
qed

lemma cleaned_lines_no_space_newline:
  "\<not> sublist [CHR '' '', nl]
       (frame_text (add_paragraphs 0 (str_split nl t) new_text_frame))"
proof -
  let ?ls = "str_split nl t"
  let ?xs = "strip (hd ?ls) # filter (\<lambda>l. l \<noteq> []) (map strip (tl ?ls))"
  have "\<forall>x \<in> set ?xs. nl \<notin> set x \<and> (x = [] \<or> last x \<noteq> CHR '' '')"
  proof
    fix x assume "x \<in> set ?xs"
    then obtain l where l: "l \<in> set ?ls" and x: "x = strip l"
      using str_split_not_Nil [of nl t]
      by (cases ?ls) auto
    have "nl \<notin> set l" using l by (rule str_split_no_sep)
    then have a: "nl \<notin> set x" using set_strip [of l] x by auto
    have "isspace (CHR '' '')" by (simp add: isspace_def)
    then have "x = [] \<or> last x \<noteq> CHR '' ''"
      using strip_no_outer_space [of l] x by auto
    with a show "nl \<notin> set x \<and> (x = [] \<or> last x \<noteq> CHR '' '')" by simp
  qed
  then have "\<not> sublist [CHR '' '', nl] (join [nl] ?xs)" by (rule no_space_newline_join)
  then show ?thesis
    by (simp add: frame_text_def texts_add_paragraphs_split)
qed

lemma extracted_text_with_space_newline_not_in_content:
  assumes "create_editable_text_slide env text image_path page_num img = Inr s"
    and "\<not> startswith text ''[Edit this text''"
    and "sublist [CHR '' '', nl] text"
  shows "\<not> sublist text (frame_text (content_frame s))"
proof
  assume "sublist text (frame_text (content_frame s))"
  with assms(3) have "sublist [CHR '' '', nl] (frame_text (content_frame s))"
    using sublist_order.order_trans by blast
  moreover have "content_frame s
                   = add_paragraphs 0 (str_split nl (clean_extracted_text env text)) new_text_frame"
    using create_slide_content [OF assms(1)] assms(2) by simp
  ultimately show False using cleaned_lines_no_space_newline by simp
qed

theorem extracted_text_not_in_content_counterexample:
  "fst (extract_text_from_pdf
          (sample_env (Inr 1) (Inr [Inr (''This is the first line '' @ [nl] @ ''second line'')])
             (Inr [sample_image]) None) ''in.pdf'' 1 sample_world)
     = [''This is the first line '' @ [nl] @ ''second line'']
   \<and> content_texts
        (snd (snd (convert
           (sample_env (Inr 1) (Inr [Inr (''This is the first line '' @ [nl] @ ''second line'')])
              (Inr [sample_image]) None) init ''in.pdf'' ''output/out.pptx'' 30 sample_world)))
        ''output/out.pptx''
     = Some [''This is the first line'' @ [nl] @ ''second line'']
   \<and> \<not> sublist (''This is the first line '' @ [nl] @ ''second line'')
            (''This is the first line'' @ [nl] @ ''second line'')"
  by code_simp

section \<open>The upload handler\<close>

lemma lower_char_dot: "lower_char c = CHR ''.'' \<longleftrightarrow> c = CHR ''.''"
proof
  assume a: "lower_char c = CHR ''.''"
  show "c = CHR ''.''"
  proof (rule ccontr)
    assume n: "c \<noteq> CHR ''.''"
    let ?n = "of_char c :: nat"
    have up: "(65 \<le> ?n \<and> ?n \<le> 90) \<or> (192 \<le> ?n \<and> ?n \<le> 222 \<and> ?n \<noteq> 215)"
      using a n by (auto simp: lower_char_def Let_def split: if_splits)
    with a have "char_of (?n + 32) = CHR ''.''" by (simp add: lower_char_def Let_def)
    then have "(of_char (char_of (?n + 32) :: char) :: nat) = of_char (CHR ''.'')" by simp
    then have "(?n + 32) mod 256 = 46" by simp
    with up show False by auto
  qed
next
  assume "c = CHR ''.''"
  then show "lower_char c = CHR ''.''" by (simp add: lower_char_def Let_def)
qed

lemma dot_in_lower: "CHR ''.'' \<in> set (lower s) \<longleftrightarrow> CHR ''.'' \<in> set s"
proof
  assume "CHR ''.'' \<in> set (lower s)"
  then obtain c where c: "c \<in> set s" and "lower_char c = CHR ''.''"
    by (auto simp: lower_def)
  then have "c = CHR ''.''" by (simp add: lower_char_dot)
  with c show "CHR ''.'' \<in> set s" by simp
next
  assume "CHR ''.'' \<in> set s"
  then have "lower_char (CHR ''.'') \<in> set (lower s)" by (simp add: lower_def)
  moreover have "lower_char (CHR ''.'') = CHR ''.''" by (simp add: lower_char_dot)
  ultimately show "CHR ''.'' \<in> set (lower s)" by simp
qed

lemma last_sep_unique:
  assumes "xs @ c # ys = xs' @ c # ys'" and "c \<notin> set ys" and "c \<notin> set ys'"
  shows "ys = ys'"
proof -
  have "rev ys @ c # rev xs = rev ys' @ c # rev xs'"
    using assms(1) by (metis rev.simps(2) rev_append append_assoc append_Cons append_Nil)
  then have "takeWhile (\<lambda>x. x \<noteq> c) (rev ys @ c # rev xs)
               = takeWhile (\<lambda>x. x \<noteq> c) (rev ys' @ c # rev xs')" by simp
  moreover have "takeWhile (\<lambda>x. x \<noteq> c) (rev ys @ c # rev xs) = rev ys"
  proof -
    have "takeWhile (\<lambda>x. x \<noteq> c) (rev ys @ c # rev xs)
            = rev ys @ takeWhile (\<lambda>x. x \<noteq> c) (c # rev xs)"
      by (rule takeWhile_append2) (use assms(2) in auto)
    then show ?thesis by simp
  qed
  moreover have "takeWhile (\<lambda>x. x \<noteq> c) (rev ys' @ c # rev xs') = rev ys'"
  proof -
    have "takeWhile (\<lambda>x. x \<noteq> c) (rev ys' @ c # rev xs')
            = rev ys' @ takeWhile (\<lambda>x. x \<noteq> c) (c # rev xs')"
      by (rule takeWhile_append2) (use assms(3) in auto)
    then show ?thesis by simp
  qed
  ultimately show ?thesis by simp
qed

lemma rsplit_parts:
  assumes "c \<in> set s"
  shows "\<exists>a b. rsplit c s = [a, b] \<and> s = a @ c # b \<and> c \<notin> set b"
proof -
  let ?b = "rev (takeWhile (\<lambda>x. x \<noteq> c) (rev s))"
  let ?a = "rev (tl (dropWhile (\<lambda>x. x \<noteq> c) (rev s)))"
  have ne: "dropWhile (\<lambda>x. x \<noteq> c) (rev s) \<noteq> []" using assms by simp
  then have hd: "hd (dropWhile (\<lambda>x. x \<noteq> c) (rev s)) = c"
    using hd_dropWhile [of "\<lambda>x. x \<noteq> c" "rev s"] by simp
  have "rev s = takeWhile (\<lambda>x. x \<noteq> c) (rev s) @ dropWhile (\<lambda>x. x \<noteq> c) (rev s)" by simp
  also have "dropWhile (\<lambda>x. x \<noteq> c) (rev s) = c # tl (dropWhile (\<lambda>x. x \<noteq> c) (rev s))"
    using ne hd by (metis list.collapse)
  finally have "rev s = takeWhile (\<lambda>x. x \<noteq> c) (rev s) @ c # tl (dropWhile (\<lambda>x. x \<noteq> c) (rev s))" .
  then have "rev (rev s) = rev (takeWhile (\<lambda>x. x \<noteq> c) (rev s) @ c # tl (dropWhile (\<lambda>x. x \<noteq> c) (rev s)))"
    by simp
  then have s: "s = ?a @ c # ?b" by simp
  have "c \<notin> set ?b" using set_takeWhileD [of c "\<lambda>x. x \<noteq> c" "rev s"] by auto
  with s assms show ?thesis by (simp add: rsplit_def)
qed

lemma allowed_file_eq: "allowed_file filename = Inr (suffix ''.pdf'' (lower filename))"
proof (cases "CHR ''.'' \<in> set filename")
  case False
  have "\<not> suffix ''.pdf'' (lower filename)"
  proof
    assume "suffix ''.pdf'' (lower filename)"
    then have "set ''.pdf'' \<subseteq> set (lower filename)" by (rule set_mono_suffix)
    then have "CHR ''.'' \<in> set (lower filename)" by simp
    with False show False by (simp add: dot_in_lower)
  qed
  with False show ?thesis by (simp add: allowed_file_def)
next
  case True
  from rsplit_parts [OF True] obtain a b
    where r: "rsplit CHR ''.'' filename = [a, b]" and f: "filename = a @ CHR ''.'' # b"
      and nb: "CHR ''.'' \<notin> set b"
    by blast
  have lf: "lower filename = lower a @ CHR ''.'' # lower b"
    by (subst f) (simp add: lower_def lower_char_dot)
  have "lower b = ''pdf'' \<longleftrightarrow> suffix ''.pdf'' (lower filename)"
  proof
    assume "lower b = ''pdf''"
    then show "suffix ''.pdf'' (lower filename)" by (simp add: lf suffix_def)
  next
    assume "suffix ''.pdf'' (lower filename)"
    then obtain zs where "lower a @ CHR ''.'' # lower b = zs @ CHR ''.'' # ''pdf''"
      by (auto simp: suffix_def lf)
    moreover have "CHR ''.'' \<notin> set (lower b)" using nb by (simp add: dot_in_lower)
    moreover have "CHR ''.'' \<notin> set ''pdf''" by simp
    ultimately show "lower b = ''pdf''" by (rule last_sep_unique)
  qed
  then show ?thesis
    using True by (simp add: allowed_file_def r py_getitem_def ALLOWED_EXTENSIONS_def)
qed

lemma flash_fields [simp]:
  "dirs (flash m c w) = dirs w" "folders (flash m c w) = folders w"
  "logged (flash m c w) = logged w" "flashes (flash m c w) = flashes w @ [(m, c)]"
  by (simp_all add: flash_def)

lemma remove_file_fields [simp]:
  "dirs (remove_file p w) = dirs w" "flashes (remove_file p w) = flashes w"
  "logged (remove_file p w) = logged w"
  by (simp_all add: remove_file_def split: prod.splits)

lemma convert_logged_mono:
  "set (logged w) \<subseteq> set (logged (snd (snd (convert env self pdf_path output_path max_pages w))))"
proof -
  obtain r self1 w1 where run: "convert_try env pdf_path output_path max_pages (self, w) = (r, (self1, w1))"
    by (metis surj_pair)
  have "set (logged w) \<subseteq> set (logged w1)"
  proof (cases "mkdtemp_res env")
    case (Inl e)
    from convert_try_mkdtemp_fails [OF Inl, of pdf_path output_path max_pages self w] run
    show ?thesis by simp
  next
    case (Inr name)
    from convert_try_general [OF run Inr] show ?thesis by simp
  qed
  moreover from convert_result [OF run]
  have "set (logged w1) \<subseteq> set (logged (snd (snd (convert env self pdf_path output_path max_pages w))))"
    by auto
  ultimately show ?thesis by blast
qed

lemma upload_convert_logged:
  assumes "upload_convert env unique_id original_filename filepath w = (r, w')"
  shows "set (logged w) \<subseteq> set (logged w')"
proof (cases "py_getitem (rsplit CHR ''.'' original_filename) 0")
  case (Inl e)
  with assms show ?thesis by (simp add: upload_convert_def)
next
  case (Inr stem)
  let ?c = "convert env init filepath
              (path_join OUTPUT_FOLDER (unique_id @ ''_'' @ stem @ ''.pptx'')) 30 w"
  have m: "set (logged w) \<subseteq> set (logged (snd (snd ?c)))" by (rule convert_logged_mono)
  obtain r1 self1 w1 where c: "?c = (r1, (self1, w1))" by (metis surj_pair)
  with m have "set (logged w) \<subseteq> set (logged w1)" by simp
  with assms Inr c show ?thesis
    by (auto simp: upload_convert_def Let_def split: sum.splits if_splits)
qed

lemma upload_inner_logged:
  assumes "try_finally
             (try_except (upload_convert env unique_id original_filename filepath w)
                upload_convert_except)
             (upload_finally env filepath) = (r, w')"
  shows "set (logged w) \<subseteq> set (logged w')"
proof -
  obtain r1 w1 where a: "upload_convert env unique_id original_filename filepath w = (r1, w1)"
    by (metis surj_pair)
  from upload_convert_logged [OF a] have l1: "set (logged w) \<subseteq> set (logged w1)" .
  obtain r2 w2 where b: "try_except (r1, w1) upload_convert_except = (r2, w2)"
    by (metis surj_pair)
  then have l2: "set (logged w1) \<subseteq> set (logged w2)"
    by (auto simp: try_except_def upload_convert_except_def split: sum.splits)
  obtain r3 w3 where c: "upload_finally env filepath w2 = (r3, w3)"
    by (metis surj_pair)
  then have l3: "set (logged w2) \<subseteq> set (logged w3)" and r3: "r3 = Inr ()"
    by (auto simp: upload_finally_def try_except_def split: sum.splits option.splits if_splits)
  from assms a b c r3 have "w' = w3" by (simp add: try_finally_def)
  with l1 l2 l3 show ?thesis by blast
qed

text \<open>
  Claim C7. \<open>allowed_file\<close> accepts exactly the file names that end in \<open>.pdf\<close>, in any mix of
  upper and lower case. A request to \<open>/upload\<close> whose file name does not end so (or has no dot
  at all) is answered with a flashed message and a redirect to the index page, and nothing is
  written to any folder. A file name that ends in \<open>.pdf\<close> goes on to be saved.
\<close>

theorem upload_rejects_non_pdf:
  "allowed_file (file_name file) = Inr (suffix ''.pdf'' (lower (file_name file)))
   \<and> (\<not> suffix ''.pdf'' (lower (file_name file)) \<longrightarrow>
        upload_file env \<lparr>files = Some file\<rparr> w
          = (Inr (Redirect ''index''),
             flash (if file_name file = [] then ''No file selected''
                    else ''Invalid file type. Please upload a PDF file.'') ''error'' w)
        \<and> folders (snd (upload_file env \<lparr>files = Some file\<rparr> w)) = folders w)
   \<and> (suffix ''.pdf'' (lower (file_name file)) \<and> file_save file = None \<longrightarrow>
        (INFO, ''File uploaded: ''
           @ path_join UPLOAD_FOLDER (uuid4 env @ ''_'' @ secure_filename env (file_name file)))
          \<in> set (logged (snd (upload_file env \<lparr>files = Some file\<rparr> w))))"
proof (intro conjI impI)
  show "allowed_file (file_name file) = Inr (suffix ''.pdf'' (lower (file_name file)))"
    by (rule allowed_file_eq)
next
  assume n: "\<not> suffix ''.pdf'' (lower (file_name file))"
  then show u: "upload_file env \<lparr>files = Some file\<rparr> w
          = (Inr (Redirect ''index''),
             flash (if file_name file = [] then ''No file selected''
                    else ''Invalid file type. Please upload a PDF file.'') ''error'' w)"
    by (simp add: upload_file_def try_except_def allowed_file_eq)
  show "folders (snd (upload_file env \<lparr>files = Some file\<rparr> w)) = folders w"
    unfolding u by simp
next
  assume a: "suffix ''.pdf'' (lower (file_name file)) \<and> file_save file = None"
  then have ne: "file_name file \<noteq> []" by (auto simp: lower_def)
  let ?orig = "secure_filename env (file_name file)"
  let ?path = "path_join UPLOAD_FOLDER (uuid4 env @ ''_'' @ ?orig)"
  let ?w1 = "logging INFO (''File uploaded: '' @ ?path)
               (write_file ?path \<lparr>is_file = True, mtime = clock env, deck = None\<rparr> w)"
  obtain r w2 where inner:
    "try_finally (try_except (upload_convert env (uuid4 env) ?orig ?path ?w1) upload_convert_except)
       (upload_finally env ?path) = (r, w2)"
    by (metis surj_pair)
  from upload_inner_logged [OF inner] have "set (logged ?w1) \<subseteq> set (logged w2)" .
  then have in2: "(INFO, ''File uploaded: '' @ ?path) \<in> set (logged w2)" by auto
  have "upload_file env \<lparr>files = Some file\<rparr> w = try_except (r, w2) upload_except"
    using a ne inner by (simp add: upload_file_def allowed_file_eq Let_def)
  then have "set (logged w2) \<subseteq> set (logged (snd (upload_file env \<lparr>files = Some file\<rparr> w)))"
    by (auto simp: try_except_def upload_except_def split: sum.splits)
  with in2 show "(INFO, ''File uploaded: '' @ ?path)
          \<in> set (logged (snd (upload_file env \<lparr>files = Some file\<rparr> w)))"
    by blast
qed

theorem upload_rejects_non_pdf_witness:
  "\<not> suffix ''.pdf'' (lower ''report.pdf.exe'')
   \<and> upload_file (sample_env (Inr 1) (Inr [Inr ''a'']) (Inr [sample_image]) None)
        \<lparr>files = Some \<lparr>file_name = ''report.pdf.exe'', file_save = None\<rparr>\<rparr> sample_world
       = (Inr (Redirect ''index''),
          flash ''Invalid file type. Please upload a PDF file.'' ''error'' sample_world)
   \<and> suffix ''.pdf'' (lower ''Report.PDF'')
   \<and> (INFO, ''File uploaded: uploads/u1_Report.PDF'')
        \<in> set (logged (snd (upload_file (sample_env (Inr 1) (Inr [Inr ''a'']) (Inr [sample_image]) None)
               \<lparr>files = Some \<lparr>file_name = ''Report.PDF'', file_save = None\<rparr>\<rparr> sample_world)))"
proof -
  let ?env = "sample_env (Inr 1) (Inr [Inr ''a'']) (Inr [sample_image]) None"
  have n: "\<not> suffix ''.pdf'' (lower ''report.pdf.exe'')" by code_simp
  have y: "suffix ''.pdf'' (lower ''Report.PDF'')" by code_simp
  have p: "path_join UPLOAD_FOLDER (uuid4 ?env @ ''_'' @ secure_filename ?env ''Report.PDF'')
             = ''uploads/u1_Report.PDF''"
    by (simp add: path_join_def UPLOAD_FOLDER_def sample_env_def)
  from upload_rejects_non_pdf
         [of "\<lparr>file_name = ''report.pdf.exe'', file_save = None\<rparr>" ?env sample_world] n
  have a: "upload_file ?env \<lparr>files = Some \<lparr>file_name = ''report.pdf.exe'', file_save = None\<rparr>\<rparr>
             sample_world
           = (Inr (Redirect ''index''),
              flash ''Invalid file type. Please upload a PDF file.'' ''error'' sample_world)"
    by simp
  from upload_rejects_non_pdf
         [of "\<lparr>file_name = ''Report.PDF'', file_save = None\<rparr>" ?env sample_world] y
  have b: "(INFO, ''File uploaded: ''
             @ path_join UPLOAD_FOLDER (uuid4 ?env @ ''_'' @ secure_filename ?env ''Report.PDF''))
        \<in> set (logged (snd (upload_file ?env
               \<lparr>files = Some \<lparr>file_name = ''Report.PDF'', file_save = None\<rparr>\<rparr> sample_world)))"
    by simp
  from n y a b [unfolded p] show ?thesis by simp
qed

section \<open>The index page and the sweep\<close>



lemma not_swept_gitkeep: "\<not> swept env folder (''.gitkeep'', e)"
  by (simp add: swept_def)










end
